theory Spec2Isabelle
  imports Complex_Main "HOL-Library.Multiset"
begin

section \<open>FireDownload: the download queue and its workers\<close>

text \<open>
  A shallow embedding of the scheduling core of \<^verbatim>\<open>FireDownload.py\<close>: the classes
  \<^verbatim>\<open>DownloadItem\<close>, \<^verbatim>\<open>DownloadWorker\<close> and \<^verbatim>\<open>DownloadManager\<close>, the slot
  \<^verbatim>\<open>MainWindow.on_worker_finished\<close>, \<^verbatim>\<open>MainWindow.save_settings\<close> and
  \<^verbatim>\<open>Utils.validate_url\<close>.

  Python dictionaries keep their keys in insertion order, and \<^verbatim>\<open>resume_download\<close> reads the
  first key, so a dictionary is an association list: assigning to a key that is present
  replaces the value where it stands, assigning to a new key appends it.
\<close>

subsection \<open>Dictionaries in insertion order\<close>

fun dict_set :: "'k \<Rightarrow> 'v \<Rightarrow> ('k \<times> 'v) list \<Rightarrow> ('k \<times> 'v) list" where
  "dict_set k v [] = [(k, v)]"
| "dict_set k v ((k', v') # d) = (if k' = k then (k, v) # d else (k', v') # dict_set k v d)"

definition dict_del :: "'k \<Rightarrow> ('k \<times> 'v) list \<Rightarrow> ('k \<times> 'v) list" where
  "dict_del k d = filter (\<lambda>kv. fst kv \<noteq> k) d"

definition dict_keys :: "('k \<times> 'v) list \<Rightarrow> 'k list" where
  "dict_keys d = map fst d"

subsection \<open>Data model\<close>

datatype status = Queued | Downloading | Paused | Completed | Error | Cancelled

text \<open>
  The options dictionary, reduced to the keys that decide control flow in the worker:
  \<^verbatim>\<open>audio_only\<close>, \<^verbatim>\<open>verify\<close> and \<^verbatim>\<open>format\<close> (absent in the dictionaries the window builds,
  read with the default \<^verbatim>\<open>''\<close>). The other keys only parameterise the fetcher. The
  dictionary is taken to hold every key that \<^verbatim>\<open>MainWindow.start_download\<close> sets, so no
  look-up of an option fails.
\<close>

record options =
  audio_only :: bool
  verify :: bool
  format :: string

text \<open>
  \<^verbatim>\<open>DownloadItem\<close>. The field \<open>speed\<close> holds the number that the source hands to
  \<^verbatim>\<open>Utils.format_speed\<close>; metadata, time stamps and the unused request flags are left out.
  \<open>total_bytes\<close> is \<open>None\<close> when the probe stored Python's \<^verbatim>\<open>None\<close> there.
\<close>

record download_item =
  url :: string
  options :: options
  status :: status
  progress :: real
  speed :: real
  eta :: string
  file_path :: string
  bytes_downloaded :: int
  total_bytes :: "int option"

definition DownloadItem :: "string \<Rightarrow> options \<Rightarrow> download_item" where
  "DownloadItem u opts =
     \<lparr>url = u, options = opts, status = Queued, progress = 0, speed = 0, eta = ''--:--'',
      file_path = [], bytes_downloaded = 0, total_bytes = Some 0\<rparr>"

text \<open>
  \<^verbatim>\<open>DownloadWorker\<close>. The creation time \<^verbatim>\<open>start_time\<close> is only read as
  \<^verbatim>\<open>time.time() - self.start_time\<close>; that difference is an input of the progress callback.
\<close>

record worker =
  download_item :: download_item
  is_cancelled :: bool
  is_paused :: bool
  last_bytes :: int
  ffmpeg_checked :: bool
  ffmpeg_available :: bool

definition DownloadWorker :: "download_item \<Rightarrow> worker" where
  "DownloadWorker it =
     \<lparr>download_item = it, is_cancelled = False, is_paused = False, last_bytes = 0,
      ffmpeg_checked = False, ffmpeg_available = False\<rparr>"

text \<open>The signals of \<^verbatim>\<open>DownloadManager\<close>, each with its argument.\<close>

datatype signal =
    progress_updated download_item
  | download_complete download_item
  | download_error download_item
  | download_paused string
  | download_resumed string
  | download_cancelled string
  | queue_updated nat
  | metadata_received download_item
  | worker_finished string

text \<open>
  \<^verbatim>\<open>pause\<close>, \<^verbatim>\<open>resume\<close> and \<^verbatim>\<open>cancel\<close> of the worker: the new worker and the signal
  it posts to the manager.
\<close>

definition pause :: "worker \<Rightarrow> worker \<times> signal" where
  "pause wk =
     (wk\<lparr>is_paused := True, download_item := (download_item wk)\<lparr>status := Paused\<rparr>\<rparr>,
      download_paused (url (download_item wk)))"

definition resume :: "worker \<Rightarrow> worker \<times> signal" where
  "resume wk =
     (wk\<lparr>is_paused := False, download_item := (download_item wk)\<lparr>status := Downloading\<rparr>\<rparr>,
      download_resumed (url (download_item wk)))"

definition cancel :: "worker \<Rightarrow> worker \<times> signal" where
  "cancel wk =
     (wk\<lparr>is_cancelled := True, download_item := (download_item wk)\<lparr>status := Cancelled\<rparr>\<rparr>,
      download_cancelled (url (download_item wk)))"

subsection \<open>The manager\<close>

text \<open>
  The state of \<^verbatim>\<open>DownloadManager\<close>: the backlog, the two dictionaries from URL to worker,
  the limit of the thread pool (what \<^verbatim>\<open>maxThreadCount()\<close> returns after
  \<^verbatim>\<open>setMaxThreadCount\<close>), the key \<^verbatim>\<open>max_concurrent\<close> of the settings file, the workers
  handed to \<^verbatim>\<open>thread_pool.start\<close> and the signals emitted, both in order. The list widget
  of the window is presentation and is left out.
\<close>

record manager =
  download_queue :: "download_item list"
  active_downloads :: "(string \<times> worker) list"
  paused_downloads :: "(string \<times> worker) list"
  max_thread_count :: int
  max_concurrent :: int
  settings_max_concurrent :: "int option"
  pool_started :: "worker list"
  emitted :: "signal list"

definition MAX_CONCURRENT_DOWNLOADS :: int where
  "MAX_CONCURRENT_DOWNLOADS = 5"

definition load_settings :: "manager \<Rightarrow> manager" where
  "load_settings m =
     (let n = (case settings_max_concurrent m of None \<Rightarrow> MAX_CONCURRENT_DOWNLOADS | Some v \<Rightarrow> v)
      in m\<lparr>max_concurrent := n, max_thread_count := n\<rparr>)"

text \<open>
  \<^verbatim>\<open>MainWindow.save_settings\<close>, as far as the manager sees it: the value of the spin box is
  written under \<^verbatim>\<open>max_concurrent\<close>, then the manager reloads its settings.
\<close>

definition save_settings :: "manager \<Rightarrow> int \<Rightarrow> manager" where
  "save_settings m spin = load_settings (m\<lparr>settings_max_concurrent := Some spin\<rparr>)"

text \<open>\<^verbatim>\<open>DownloadManager.__init__\<close>, given the content of the settings file.\<close>

definition DownloadManager :: "int option \<Rightarrow> manager" where
  "DownloadManager stored =
     load_settings
       \<lparr>download_queue = [], active_downloads = [], paused_downloads = [],
        max_thread_count = MAX_CONCURRENT_DOWNLOADS, max_concurrent = MAX_CONCURRENT_DOWNLOADS,
        settings_max_concurrent = stored, pool_started = [], emitted = []\<rparr>"

text \<open>One pass through the body of the loop of \<^verbatim>\<open>start_next_download\<close>.\<close>

definition admit_head :: "manager \<Rightarrow> manager" where
  "admit_head m =
     (let it = hd (download_queue m);
          rest = tl (download_queue m);
          wk = DownloadWorker it
      in m\<lparr>download_queue := rest,
           active_downloads := dict_set (url it) wk (active_downloads m),
           pool_started := pool_started m @ [wk],
           emitted := emitted m @ [queue_updated (length rest)]\<rparr>)"

function start_next_download :: "manager \<Rightarrow> manager" where
  "start_next_download m =
     (if int (length (active_downloads m)) < max_thread_count m \<and> download_queue m \<noteq> []
      then start_next_download (admit_head m)
      else m)"
  by pat_completeness auto
termination
  by (relation "measure (\<lambda>m. length (download_queue m))") (auto simp: admit_head_def Let_def)

declare start_next_download.simps [simp del]

definition pause_download :: "manager \<Rightarrow> string \<Rightarrow> manager" where
  "pause_download m u =
     (case map_of (active_downloads m) u of
        None \<Rightarrow> m
      | Some wk \<Rightarrow>
          (let (wk', sg) = pause wk
           in start_next_download
                (m\<lparr>emitted := emitted m @ [sg],
                   paused_downloads := dict_set u wk' (paused_downloads m),
                   active_downloads := dict_del u (active_downloads m)\<rparr>)))"

definition resume_download :: "manager \<Rightarrow> string \<Rightarrow> manager" where
  "resume_download m u =
     (case map_of (paused_downloads m) u of
        None \<Rightarrow> m
      | Some wk \<Rightarrow>
          (let (wk', sg) = resume wk;
               m1 = m\<lparr>emitted := emitted m @ [sg],
                      active_downloads := dict_set u wk' (active_downloads m),
                      paused_downloads := dict_del u (paused_downloads m)\<rparr>
           in if int (length (active_downloads m1)) > max_thread_count m1
              then pause_download m1 (hd (dict_keys (active_downloads m1)))
              else m1))"

definition cancel_download :: "manager \<Rightarrow> string \<Rightarrow> manager" where
  "cancel_download m u =
     (let m1 =
            (case map_of (active_downloads m) u of
               Some wk \<Rightarrow>
                 start_next_download
                   (m\<lparr>emitted := emitted m @ [snd (cancel wk)],
                      active_downloads := dict_del u (active_downloads m)\<rparr>)
             | None \<Rightarrow>
                 (case map_of (paused_downloads m) u of
                    Some wk \<Rightarrow>
                      m\<lparr>emitted := emitted m @ [snd (cancel wk)],
                        paused_downloads := dict_del u (paused_downloads m)\<rparr>
                  | None \<Rightarrow> m));
          q = filter (\<lambda>it. url it \<noteq> u) (download_queue m1)
      in m1\<lparr>download_queue := q, emitted := emitted m1 @ [queue_updated (length q)]\<rparr>)"

text \<open>
  \<^verbatim>\<open>MainWindow.on_worker_finished\<close>, the only slot connected to \<^verbatim>\<open>worker_finished\<close>: its body
  is \<^verbatim>\<open>pass\<close>.
\<close>

definition on_worker_finished :: "manager \<Rightarrow> string \<Rightarrow> manager" where
  "on_worker_finished m u = m"

text \<open>
  \<^verbatim>\<open>MainWindow._init_connections\<close>: the slot that each signal of the manager reaches. All
  slots belong to the window and only redraw it; none of them calls the manager.
\<close>

fun deliver :: "manager \<Rightarrow> signal \<Rightarrow> manager" where
  "deliver m (worker_finished u) = on_worker_finished m u"
| "deliver m sg = m"

subsection \<open>URL validation\<close>

text \<open>
  Exceptions of the source, by class. \<open>FetcherError\<close> stands for whatever the fetcher
  (\<^verbatim>\<open>yt_dlp\<close>) raises.
\<close>

datatype exn =
  SubprocessError | RuntimeError | FileNotFoundError | ValueError | TypeError | ZeroDivisionError |
  FetcherError

text \<open>
  \<^verbatim>\<open>urllib.parse.urlparse\<close> and \<^verbatim>\<open>str.lower\<close> are library code: they are the two fields of
  a parameter of the validation. \<open>urlparse\<close> gives the two components that are read, or
  the exception it raised. A string is the list of the bytes of its UTF-8 encoding; the
  patterns that the source searches for and deletes are ASCII, so searching and deleting
  in the bytes agrees with doing it in the characters.
\<close>

record url_parts =
  scheme :: string
  netloc :: string

record py_lib =
  urlparse :: "string \<Rightarrow> exn + url_parts"
  str_lower :: "string \<Rightarrow> string"

definition starts_with :: "string \<Rightarrow> string \<Rightarrow> bool" where
  "starts_with s p = (take (length p) s = p)"

text \<open>
  \<^verbatim>\<open>s.replace(old, new)\<close> for a non-empty \<open>old\<close>: the occurrences are found from the left
  and do not overlap. (The source only replaces the constants \<^verbatim>\<open>"www."\<close> and \<^verbatim>\<open>"m."\<close>.)
\<close>

function str_replace :: "string \<Rightarrow> string \<Rightarrow> string \<Rightarrow> string" where
  "str_replace old new [] = []"
| "str_replace old new (c # cs) =
     (if old \<noteq> [] \<and> starts_with (c # cs) old
      then new @ str_replace old new (drop (length old) (c # cs))
      else c # str_replace old new cs)"
  by pat_completeness auto
termination
  by (relation "measure (\<lambda>(old, new, s). length s)") auto

text \<open>The operator \<^verbatim>\<open>d in s\<close> on strings.\<close>

fun str_contains :: "string \<Rightarrow> string \<Rightarrow> bool" where
  "str_contains [] d = (d = [])"
| "str_contains (c # cs) d = (starts_with (c # cs) d \<or> str_contains cs d)"

definition SUPPORTED_SITES :: "(string \<times> string list) list" where
  "SUPPORTED_SITES =
     [(''YouTube'', [''youtube.com'', ''youtu.be'']),
      (''TikTok'', [''tiktok.com'', ''vm.tiktok.com'']),
      (''Instagram'', [''instagram.com'']),
      (''Twitter'', [''twitter.com'', ''x.com'']),
      (''Twitch'', [''twitch.tv'', ''clips.twitch.tv'']),
      (''Reddit'', [''reddit.com'']),
      (''Dailymotion'', [''dailymotion.com'']),
      (''SoundCloud'', [''soundcloud.com'', ''on.soundcloud.com'']),
      (''Vimeo'', [''vimeo.com'']),
      (''Facebook'', [''facebook.com'']),
      (''LinkedIn'', [''linkedin.com'']),
      (''Rumble'', [''rumble.com'']),
      (''Bilibili'', [''bilibili.com'']),
      (''Odysee'', [''odysee.com''])]"

text \<open>The loop over \<^verbatim>\<open>Config.SUPPORTED_SITES.values()\<close>.\<close>

fun sites_loop :: "string \<Rightarrow> string list list \<Rightarrow> bool" where
  "sites_loop clean_domain [] = False"
| "sites_loop clean_domain (domains # rest) =
     (if list_ex (\<lambda>d. str_contains clean_domain d) domains then True
      else sites_loop clean_domain rest)"

definition clean_domain_of :: "py_lib \<Rightarrow> string \<Rightarrow> string" where
  "clean_domain_of lib nl = str_replace ''m.'' [] (str_replace ''www.'' [] (str_lower lib nl))"

definition validate_url :: "py_lib \<Rightarrow> string \<Rightarrow> bool" where
  "validate_url lib u =
     (case urlparse lib u of
        Inl e \<Rightarrow> False
      | Inr parsed \<Rightarrow>
          if \<not> (scheme parsed = ''http'' \<or> scheme parsed = ''https'') then False
          else sites_loop (clean_domain_of lib (netloc parsed)) (map snd SUPPORTED_SITES))"

definition add_download :: "py_lib \<Rightarrow> manager \<Rightarrow> string list \<Rightarrow> options \<Rightarrow> manager" where
  "add_download lib m urls opts =
     (let valid_urls = filter (validate_url lib) urls;
          m1 = foldl (\<lambda>m' u. m'\<lparr>download_queue := download_queue m' @ [DownloadItem u opts]\<rparr>)
                 m valid_urls;
          m2 = start_next_download m1
      in m2\<lparr>emitted := emitted m2 @ [queue_updated (length (download_queue m2))]\<rparr>)"

text \<open>
  The validation in the words of the specification: the scheme is http or https, and the
  host, in lower case and with the prefixes \<^verbatim>\<open>www.\<close> and \<^verbatim>\<open>m.\<close> stripped, matches an allowed
  host pattern. Matching is read as containment, the most generous reading.
\<close>

definition strip_prefix :: "string \<Rightarrow> string \<Rightarrow> string" where
  "strip_prefix p s = (if starts_with s p then drop (length p) s else s)"

definition spec_validate_url :: "py_lib \<Rightarrow> string \<Rightarrow> bool" where
  "spec_validate_url lib u =
     (case urlparse lib u of
        Inl e \<Rightarrow> False
      | Inr parsed \<Rightarrow>
          (scheme parsed = ''http'' \<or> scheme parsed = ''https'') \<and>
          list_ex
            (\<lambda>d. str_contains
                    (strip_prefix ''m.'' (strip_prefix ''www.'' (str_lower lib (netloc parsed)))) d)
            (concat (map snd SUPPORTED_SITES)))"

subsection \<open>The worker: verification, attempts and the retry loop\<close>

definition needs_ffmpeg :: "worker \<Rightarrow> bool" where
  "needs_ffmpeg wk =
     (audio_only (options (download_item wk)) \<or>
      str_contains (format (options (download_item wk))) ''merge'')"

text \<open>
  What \<^verbatim>\<open>_verify_download\<close> finds on disk: whether the file exists at the expected path,
  its size, and what running ffmpeg on it gave (an exit code, or \<^verbatim>\<open>subprocess.run\<close> raised).
\<close>

datatype ffmpeg_result = Exit int | Spawn_failed

record verify_env =
  path_exists :: bool
  file_size :: nat
  ffmpeg_run :: ffmpeg_result

text \<open>
  \<^verbatim>\<open>_verify_download\<close>: the exception it raises, if any. \<open>expected\<close> is
  \<^verbatim>\<open>info.get('filesize', info.get('filesize_approx', 0))\<close>, \<open>None\<close> when that is Python's
  \<^verbatim>\<open>None\<close>: then the comparison \<^verbatim>\<open>expected_size > 0\<close> raises \<^verbatim>\<open>TypeError\<close>. A size that
  is more than a tenth off a positive expected size is only logged. An error of the
  ffmpeg pass is caught and raised again as \<^verbatim>\<open>RuntimeError\<close>.
\<close>

definition verify_download :: "options \<Rightarrow> int option \<Rightarrow> verify_env \<Rightarrow> exn option" where
  "verify_download opts expected v =
     (if \<not> path_exists v then Some FileNotFoundError
      else if file_size v = 0 then Some ValueError
      else
        (case expected of
           None \<Rightarrow> Some TypeError
         | Some expected_size \<Rightarrow>
             if \<not> audio_only opts then
               (case ffmpeg_run v of
                  Exit rc \<Rightarrow> if rc \<noteq> 0 then Some RuntimeError else None
                | Spawn_failed \<Rightarrow> Some RuntimeError)
             else None))"

text \<open>
  What happens around the worker during one attempt: whether the probe raises (creating
  the fetcher, \<^verbatim>\<open>extract_info\<close>, or reading its result, lines 726 to 731), whether the
  transfer raises (\<^verbatim>\<open>ydl.download\<close> with its progress callbacks, or \<^verbatim>\<open>prepare_filename\<close>),
  whether the output file exists with a positive size, the size that the probe reports
  (\<^verbatim>\<open>info.get('filesize', info.get('filesize_approx', 0))\<close>, \<open>None\<close> for Python's
  \<^verbatim>\<open>None\<close>) and the path built from it, the facts for the verification, and whether the
  manager calls \<^verbatim>\<open>cancel()\<close> on this worker during the probe, during the transfer, or
  after the attempt and before the next test of the loop.
\<close>

record attempt_env =
  probe_raises :: "exn option"
  cancel_in_probe :: bool
  info_filesize :: "int option"
  transfer_raises :: "exn option"
  cancel_in_transfer :: bool
  file_ok :: bool
  out_path :: string
  vfy :: verify_env
  cancel_after :: bool

definition arrive :: "bool \<Rightarrow> worker \<Rightarrow> worker" where
  "arrive c wk = (if c then fst (cancel wk) else wk)"

datatype body_exit = Fell_through | Returned | Raised exn

text \<open>
  The body of the inner \<^verbatim>\<open>try\<close> of \<^verbatim>\<open>run\<close>: how it is left, the flag \<^verbatim>\<open>success\<close>, the
  worker and the signals emitted so far. The progress callbacks made during the transfer
  are the subject of \<open>update_progress\<close> below; they do not touch status or flags.
\<close>

definition attempt_body ::
  "attempt_env \<Rightarrow> worker \<Rightarrow> signal list \<Rightarrow> body_exit \<times> bool \<times> worker \<times> signal list" where
  "attempt_body a wk sigs =
     (let wk1 = arrive (cancel_in_probe a) wk in
      case probe_raises a of
        Some e \<Rightarrow> (Raised e, False, wk1, sigs)
      | None \<Rightarrow>
          (let wk2 = wk1\<lparr>download_item := (download_item wk1)\<lparr>total_bytes := info_filesize a\<rparr>\<rparr>;
               sigs1 = sigs @ [metadata_received (download_item wk2)]
           in if is_cancelled wk2 then (Returned, False, wk2, sigs1)
              else
                (let wk3 = arrive (cancel_in_transfer a) wk2 in
                 case transfer_raises a of
                   Some e \<Rightarrow> (Raised e, False, wk3, sigs1)
                 | None \<Rightarrow>
                     if file_ok a then
                       (let wk4 = wk3\<lparr>download_item :=
                                       (download_item wk3)\<lparr>status := Completed, file_path := out_path a\<rparr>\<rparr>;
                            sigs2 = sigs1 @ [download_complete (download_item wk4)]
                        in if verify (options (download_item wk4)) then
                             (case verify_download (options (download_item wk4)) (info_filesize a) (vfy a) of
                                Some e \<Rightarrow> (Raised e, True, wk4, sigs2)
                              | None \<Rightarrow> (Fell_through, True, wk4, sigs2))
                           else (Fell_through, True, wk4, sigs2))
                     else (Fell_through, False, wk3, sigs1))))"

definition max_attempts :: nat where
  "max_attempts = 3"

record run_state =
  rs_worker :: worker
  rs_attempt :: nat
  rs_success :: bool
  rs_signals :: "signal list"
  rs_sleeps :: "nat list"

datatype loop_exit = Loop_done | Loop_returned | Loop_raised exn

text \<open>
  The \<^verbatim>\<open>while\<close> loop of \<^verbatim>\<open>run\<close>, with the handler of the inner \<^verbatim>\<open>try\<close>. \<open>env n\<close> is what
  happens around attempt \<open>n\<close>; \<open>rs_sleeps\<close> collects the arguments of \<^verbatim>\<open>time.sleep\<close>.
\<close>

function retry_loop :: "(nat \<Rightarrow> attempt_env) \<Rightarrow> run_state \<Rightarrow> loop_exit \<times> run_state" where
  "retry_loop env s =
     (if rs_attempt s < max_attempts \<and> \<not> rs_success s \<and> \<not> is_cancelled (rs_worker s) then
        (let n = rs_attempt s + 1; a = env n in
         case attempt_body a (rs_worker s) (rs_signals s) of
           (Raised e, ok, wk, sigs) \<Rightarrow>
             if n = max_attempts
             then (Loop_raised e,
                   s\<lparr>rs_worker := wk, rs_attempt := n, rs_success := ok, rs_signals := sigs\<rparr>)
             else retry_loop env
                    (s\<lparr>rs_worker := arrive (cancel_after a) wk, rs_attempt := n, rs_success := ok,
                       rs_signals := sigs, rs_sleeps := rs_sleeps s @ [5 * n]\<rparr>)
         | (Returned, ok, wk, sigs) \<Rightarrow>
             (Loop_returned,
              s\<lparr>rs_worker := wk, rs_attempt := n, rs_success := ok, rs_signals := sigs\<rparr>)
         | (Fell_through, ok, wk, sigs) \<Rightarrow>
             retry_loop env
               (s\<lparr>rs_worker := arrive (cancel_after a) wk, rs_attempt := n, rs_success := ok,
                  rs_signals := sigs\<rparr>))
      else (Loop_done, s))"
  by pat_completeness auto
termination
  by (relation "measure (\<lambda>(env, s). max_attempts - rs_attempt s)") auto

declare retry_loop.simps [simp del]

text \<open>
  \<^verbatim>\<open>DownloadWorker.run\<close>, in the order of the source. \<open>ffmpeg_found\<close> is the first
  component of \<^verbatim>\<open>Utils.check_ffmpeg()\<close>. First the status is set and ffmpeg is looked for
  if the options need it.
\<close>

definition run_start :: "bool \<Rightarrow> worker \<Rightarrow> worker" where
  "run_start ffmpeg_found wk0 =
     (let wk1 = wk0\<lparr>download_item := (download_item wk0)\<lparr>status := Downloading\<rparr>\<rparr>
      in if \<not> ffmpeg_checked wk1 \<and> needs_ffmpeg wk1
         then wk1\<lparr>ffmpeg_checked := True, ffmpeg_available := ffmpeg_found\<rparr>
         else wk1)"

definition ffmpeg_missing :: "bool \<Rightarrow> worker \<Rightarrow> bool" where
  "ffmpeg_missing ffmpeg_found wk0 =
     (\<not> ffmpeg_checked wk0 \<and> needs_ffmpeg wk0 \<and> \<not> ffmpeg_found)"

text \<open>
  The outer \<^verbatim>\<open>try\<close> block: the exception that leaves it, if any, and the state then.
\<close>

definition run_body :: "bool \<Rightarrow> (nat \<Rightarrow> attempt_env) \<Rightarrow> worker \<Rightarrow> exn option \<times> run_state" where
  "run_body ffmpeg_found env wk0 =
     (let s0 = \<lparr>rs_worker = run_start ffmpeg_found wk0, rs_attempt = 0, rs_success = False,
                rs_signals = [], rs_sleeps = []\<rparr>
      in if ffmpeg_missing ffmpeg_found wk0 then (Some SubprocessError, s0)
         else
           (case retry_loop env s0 of
              (Loop_raised e, s) \<Rightarrow> (Some e, s)
            | (Loop_returned, s) \<Rightarrow> (None, s)
            | (Loop_done, s) \<Rightarrow>
                if \<not> rs_success s \<and> \<not> is_cancelled (rs_worker s)
                then (Some RuntimeError, s) else (None, s)))"

text \<open>
  The \<^verbatim>\<open>except\<close> and \<^verbatim>\<open>finally\<close> blocks. \<^verbatim>\<open>ErrorHandler.handle\<close> only logs (its signal is
  emitted on a fresh object with no listener).
\<close>

definition run_handlers :: "exn option \<times> run_state \<Rightarrow> run_state" where
  "run_handlers r =
     (let s1 = snd r;
          s2 =
             (case fst r of
                Some e \<Rightarrow>
                  if \<not> is_cancelled (rs_worker s1) then
                    (let wk3 = (rs_worker s1)\<lparr>download_item :=
                                  (download_item (rs_worker s1))\<lparr>status := Error\<rparr>\<rparr>
                     in s1\<lparr>rs_worker := wk3,
                           rs_signals := rs_signals s1 @ [download_error (download_item wk3)]\<rparr>)
                  else s1
              | None \<Rightarrow> s1)
      in s2\<lparr>rs_signals := rs_signals s2 @ [worker_finished (url (download_item (rs_worker s2)))]\<rparr>)"

text \<open>
  The result of \<open>run\<close> is the final state: the worker, the number of attempts, the
  signals emitted and the sleeps made.
\<close>

definition run :: "bool \<Rightarrow> (nat \<Rightarrow> attempt_env) \<Rightarrow> worker \<Rightarrow> run_state" where
  "run ffmpeg_found env wk0 = run_handlers (run_body ffmpeg_found env wk0)"

subsection \<open>The progress callback\<close>

text \<open>
  The dictionary that the fetcher passes to the progress hook. A key is absent
  (\<open>None\<close>) or carries a number; byte counts are integers. For \<^verbatim>\<open>total_bytes\<close> the value
  \<open>None\<close> also stands for a key that is present and holds \<^verbatim>\<open>None\<close>, which the source
  treats alike.
\<close>

record progress_dict =
  d_status :: string
  downloaded_bytes :: "int option"
  d_total_bytes :: "int option"
  total_bytes_estimate :: "int option"
  eta_str :: "string option"

text \<open>
  While the callback waits in its pause loop, the manager may call a method of the
  worker between two polls. The list gives what it does during each sleep of half a second.
\<close>

datatype ctl = Ctl_none | Ctl_pause | Ctl_resume | Ctl_cancel

fun apply_ctl :: "ctl \<Rightarrow> worker \<Rightarrow> worker" where
  "apply_ctl Ctl_none wk = wk"
| "apply_ctl Ctl_pause wk = fst (pause wk)"
| "apply_ctl Ctl_resume wk = fst (resume wk)"
| "apply_ctl Ctl_cancel wk = fst (cancel wk)"

text \<open>
  The loop \<^verbatim>\<open>while self._is_paused and not self._is_cancelled: time.sleep(0.5)\<close>. With no
  further action of the manager it does not end: the result is \<open>None\<close> when the list runs
  out while the worker is still paused.
\<close>

fun wait_while_paused :: "ctl list \<Rightarrow> worker \<Rightarrow> worker option" where
  "wait_while_paused [] wk = (if is_paused wk \<and> \<not> is_cancelled wk then None else Some wk)"
| "wait_while_paused (c # cs) wk =
     (if is_paused wk \<and> \<not> is_cancelled wk then wait_while_paused cs (apply_ctl c wk) else Some wk)"

text \<open>Python's \<^verbatim>\<open>/\<close>: it raises on a zero divisor.\<close>

definition truediv :: "real \<Rightarrow> real \<Rightarrow> exn + real" where
  "truediv a b = (if b = 0 then Inl ZeroDivisionError else Inr (a / b))"

definition tick_current :: "progress_dict \<Rightarrow> int" where
  "tick_current d = (case downloaded_bytes d of None \<Rightarrow> 0 | Some c \<Rightarrow> c)"

text \<open>\<^verbatim>\<open>d.get('total_bytes') or d.get('total_bytes_estimate', 1)\<close>\<close>

definition tick_total :: "progress_dict \<Rightarrow> int" where
  "tick_total d =
     (let est = (case total_bytes_estimate d of None \<Rightarrow> 1 | Some e \<Rightarrow> e)
      in case d_total_bytes d of None \<Rightarrow> est | Some t \<Rightarrow> if t \<noteq> 0 then t else est)"

text \<open>
  The part of \<^verbatim>\<open>_update_progress\<close> after the pause loop: the new progress, byte counts,
  speed and estimate, and the signal posted. \<open>dt\<close> is \<^verbatim>\<open>time.time() - self.start_time\<close>.
  Arithmetic is over the reals: the rounding of floating point is not modelled.
\<close>

definition process_tick :: "worker \<Rightarrow> progress_dict \<Rightarrow> real \<Rightarrow> exn + worker \<times> signal list" where
  "process_tick wk1 d dt =
     (let current = tick_current d;
          total0 = tick_total d;
          total = (if total0 \<le> 0 then 1 else total0)
      in case truediv (real_of_int current) (real_of_int total) of
           Inl e \<Rightarrow> Inl e
         | Inr q \<Rightarrow>
             (let pr = min 100 (max 0 (q * 100));
                  elapsed = max (1 / 10) dt
              in case truediv (real_of_int (current - last_bytes wk1)) elapsed of
                   Inl e \<Rightarrow> Inl e
                 | Inr sp \<Rightarrow>
                     (let it = (download_item wk1)
                                 \<lparr>progress := pr, bytes_downloaded := current,
                                  total_bytes := Some total, speed := sp,
                                  eta := (case eta_str d of None \<Rightarrow> ''--:--'' | Some e \<Rightarrow> e)\<rparr>
                      in Inr (wk1\<lparr>download_item := it, last_bytes := current\<rparr>,
                              [progress_updated it]))))"

text \<open>
  \<^verbatim>\<open>_update_progress\<close>. The result is \<open>None\<close> when the pause loop does not end,
  otherwise an exception or the worker with the signals posted.
\<close>

definition update_progress ::
  "worker \<Rightarrow> progress_dict \<Rightarrow> ctl list \<Rightarrow> real \<Rightarrow> (exn + worker \<times> signal list) option" where
  "update_progress wk d ctls dt =
     (if d_status d = ''downloading'' \<and> \<not> is_cancelled wk then
        (case wait_while_paused ctls wk of
           None \<Rightarrow> None
         | Some wk1 \<Rightarrow>
             if is_cancelled wk1 then Some (Inr (wk1, []))
             else Some (process_tick wk1 d dt))
      else Some (Inr (wk, [])))"

text \<open>The clamp of the specification.\<close>

definition clamp :: "real \<Rightarrow> real \<Rightarrow> real \<Rightarrow> real" where
  "clamp x lo hi = (if x < lo then lo else if hi < x then hi else x)"

subsection \<open>Vocabulary of the properties\<close>

text \<open>A signal that reports a failure to the user.\<close>

fun is_error_report :: "signal \<Rightarrow> bool" where
  "is_error_report (download_error it) = True"
| "is_error_report sg = False"

fun is_queue_report :: "signal \<Rightarrow> bool" where
  "is_queue_report (queue_updated n) = True"
| "is_queue_report sg = False"

text \<open>
  An attempt raises when the probe, the transfer or the verification raises; it fails when
  the transfer raises or leaves no output; it succeeds when the output is there and the
  verification, if asked for, passes; it is plain when it succeeds or its probe or
  transfer raises. An attempt is quiet when no cancellation arrives.
\<close>

definition attempt_raises :: "options \<Rightarrow> attempt_env \<Rightarrow> bool" where
  "attempt_raises opts a =
     (probe_raises a \<noteq> None \<or> transfer_raises a \<noteq> None \<or>
      (file_ok a \<and> verify opts \<and> verify_download opts (info_filesize a) (vfy a) \<noteq> None))"

definition attempt_fails :: "attempt_env \<Rightarrow> bool" where
  "attempt_fails a = (probe_raises a \<noteq> None \<or> transfer_raises a \<noteq> None \<or> \<not> file_ok a)"

definition attempt_succeeds :: "options \<Rightarrow> attempt_env \<Rightarrow> bool" where
  "attempt_succeeds opts a =
     (probe_raises a = None \<and> transfer_raises a = None \<and> file_ok a \<and>
      (verify opts \<longrightarrow> verify_download opts (info_filesize a) (vfy a) = None))"

definition attempt_plain :: "options \<Rightarrow> attempt_env \<Rightarrow> bool" where
  "attempt_plain opts a =
     (attempt_succeeds opts a \<or> probe_raises a \<noteq> None \<or> transfer_raises a \<noteq> None)"

definition quiet :: "attempt_env \<Rightarrow> bool" where
  "quiet a = (\<not> cancel_in_probe a \<and> \<not> cancel_in_transfer a \<and> \<not> cancel_after a)"

text \<open>The URLs waiting in the backlog, and the URLs of the workers started so far.\<close>

definition queued_urls :: "manager \<Rightarrow> string list" where
  "queued_urls m = map url (download_queue m)"

definition started_urls :: "manager \<Rightarrow> string list" where
  "started_urls m = map (\<lambda>wk. url (download_item wk)) (pool_started m)"

text \<open>
  What one quiet attempt does to the state of the loop, and what the loop has done when
  it is left, both for a run that no cancellation reaches.
\<close>

definition after_attempt :: "(nat \<Rightarrow> attempt_env) \<Rightarrow> run_state \<Rightarrow> run_state \<Rightarrow> bool" where
  "after_attempt env s s1 =
     (let n = Suc (rs_attempt s); opts = options (download_item (rs_worker s)) in
      rs_attempt s1 = n \<and>
      rs_success s1 = (\<not> attempt_fails (env n)) \<and>
      \<not> is_cancelled (rs_worker s1) \<and>
      options (download_item (rs_worker s1)) = opts \<and>
      url (download_item (rs_worker s1)) = url (download_item (rs_worker s)) \<and>
      status (download_item (rs_worker s1)) =
        (if attempt_fails (env n) then status (download_item (rs_worker s)) else Completed) \<and>
      filter is_error_report (rs_signals s1) = filter is_error_report (rs_signals s) \<and>
      rs_sleeps s1 = rs_sleeps s @ (if n < 3 \<and> attempt_raises opts (env n) then [5 * n] else []))"

definition loop_post :: "(nat \<Rightarrow> attempt_env) \<Rightarrow> run_state \<Rightarrow> loop_exit \<Rightarrow> run_state \<Rightarrow> bool" where
  "loop_post env s ex s' =
     (let opts = options (download_item (rs_worker s)) in
      rs_attempt s < rs_attempt s' \<and> rs_attempt s' \<le> 3 \<and>
      (\<forall>n. rs_attempt s < n \<and> n < rs_attempt s' \<longrightarrow> attempt_fails (env n)) \<and>
      rs_success s' = (\<not> attempt_fails (env (rs_attempt s'))) \<and>
      (rs_attempt s' < 3 \<longrightarrow> rs_success s') \<and>
      ex \<noteq> Loop_returned \<and>
      ((\<exists>e. ex = Loop_raised e) \<longleftrightarrow> rs_attempt s' = 3 \<and> attempt_raises opts (env 3)) \<and>
      \<not> is_cancelled (rs_worker s') \<and>
      options (download_item (rs_worker s')) = opts \<and>
      url (download_item (rs_worker s')) = url (download_item (rs_worker s)) \<and>
      status (download_item (rs_worker s')) =
        (if rs_success s' then Completed else status (download_item (rs_worker s))) \<and>
      filter is_error_report (rs_signals s') = filter is_error_report (rs_signals s) \<and>
      rs_sleeps s' = rs_sleeps s @
        map (\<lambda>n. 5 * n)
          (filter (\<lambda>n. n < 3 \<and> attempt_raises opts (env n)) [Suc (rs_attempt s)..<Suc (rs_attempt s')]))"

text \<open>The sleeps of a linear backoff between \<open>n\<close> attempts: 5, 10, ...\<close>

definition linear_backoff :: "nat \<Rightarrow> nat list" where
  "linear_backoff n = map (\<lambda>k. 5 * k) [1..<n]"

subsection \<open>Example data\<close>

definition opts0 :: options where
  "opts0 = \<lparr>audio_only = False, verify = False, format = []\<rparr>"

definition opts_verify :: options where
  "opts_verify = \<lparr>audio_only = False, verify = True, format = []\<rparr>"

definition job :: "string \<Rightarrow> download_item" where
  "job u = DownloadItem u opts0"

definition running :: "string \<Rightarrow> string \<times> worker" where
  "running u = (u, DownloadWorker (job u))"

definition held :: "string \<Rightarrow> string \<times> worker" where
  "held u = (u, fst (pause (DownloadWorker (job u))))"

text \<open>A manager with limit \<open>n\<close> and the given URLs active, paused and waiting.\<close>

definition mgr :: "int \<Rightarrow> string list \<Rightarrow> string list \<Rightarrow> string list \<Rightarrow> manager" where
  "mgr n act psd que =
     \<lparr>download_queue = map job que, active_downloads = map running act,
      paused_downloads = map held psd, max_thread_count = n, max_concurrent = n,
      settings_max_concurrent = Some n, pool_started = map (\<lambda>u. snd (running u)) (act @ psd),
      emitted = []\<rparr>"

text \<open>\<^verbatim>\<open>str.lower\<close> on ASCII strings: the letters A to Z are mapped to a to z.\<close>

definition ascii_lower_char :: "char \<Rightarrow> char" where
  "ascii_lower_char c =
     (let n = (of_char c :: nat) in if 65 \<le> n \<and> n \<le> 90 then char_of (n + 32) else c)"

definition ascii_lower :: "string \<Rightarrow> string" where
  "ascii_lower s = map ascii_lower_char s"

text \<open>
  What \<^verbatim>\<open>urlparse\<close> returns on the URLs of the examples, and \<^verbatim>\<open>str.lower\<close> on their
  network locations, which are ASCII.
\<close>

definition urlparse_examples :: py_lib where
  "urlparse_examples =
     \<lparr>urlparse = (\<lambda>u.
        if u = ''https://youtu.be/a'' then Inr \<lparr>scheme = ''https'', netloc = ''youtu.be''\<rparr>
        else if u = ''https://vimeo.com/1'' then Inr \<lparr>scheme = ''https'', netloc = ''vimeo.com''\<rparr>
        else if u = ''https://www.instagram.com/p/abc/''
          then Inr \<lparr>scheme = ''https'', netloc = ''www.instagram.com''\<rparr>
        else if u = ''https://youtu.m.be/x'' then Inr \<lparr>scheme = ''https'', netloc = ''youtu.m.be''\<rparr>
        else if u = ''ftp://youtube.com/f'' then Inr \<lparr>scheme = ''ftp'', netloc = ''youtube.com''\<rparr>
        else Inr \<lparr>scheme = [], netloc = []\<rparr>),
      str_lower = ascii_lower\<rparr>"

text \<open>
  Attempts: one that goes well, one whose transfer raises, one that leaves an empty
  output, one whose output is not found by the verification, one during which the job is
  cancelled.
\<close>

definition good :: attempt_env where
  "good =
     \<lparr>probe_raises = None, cancel_in_probe = False, info_filesize = Some 1000,
      transfer_raises = None, cancel_in_transfer = False, file_ok = True,
      out_path = ''/d/v.mp4'',
      vfy = \<lparr>path_exists = True, file_size = 1000, ffmpeg_run = Exit 0\<rparr>,
      cancel_after = False\<rparr>"

definition broken :: attempt_env where
  "broken = good\<lparr>transfer_raises := Some FetcherError\<rparr>"

definition empty_out :: attempt_env where
  "empty_out = good\<lparr>file_ok := False\<rparr>"

definition unverifiable :: attempt_env where
  "unverifiable = good\<lparr>vfy := \<lparr>path_exists = False, file_size = 0, ffmpeg_run = Exit 0\<rparr>\<rparr>"

definition broken_cancelled :: attempt_env where
  "broken_cancelled = broken\<lparr>cancel_in_transfer := True\<rparr>"

text \<open>A progress tick: 250 bytes of an estimated 1000, the exact total unknown.\<close>

definition tick_example :: progress_dict where
  "tick_example = \<lparr>d_status = ''downloading'', downloaded_bytes = Some 250, d_total_bytes = Some 0,
      total_bytes_estimate = Some 1000, eta_str = None\<rparr>"

text \<open>The environment that plays the listed attempts, then \<open>good\<close> ones.\<close>

fun script :: "attempt_env list \<Rightarrow> nat \<Rightarrow> attempt_env" where
  "script [] n = good"
| "script (a # xs) n = (if n \<le> 1 then a else script xs (n - 1))"

section \<open>Properties\<close>

lemmas example_defs =
  mgr_def job_def running_def held_def opts0_def opts_verify_def DownloadItem_def DownloadWorker_def
  queued_urls_def started_urls_def dict_keys_def dict_del_def

lemmas worker_defs = pause_def resume_def cancel_def

lemmas script_defs = good_def broken_def empty_out_def unverifiable_def broken_cancelled_def

lemmas run_defs = run_def run_start_def ffmpeg_missing_def run_body_def run_handlers_def
  attempt_body_def arrive_def verify_download_def needs_ffmpeg_def
  max_attempts_def Let_def

lemmas validate_defs = validate_url_def urlparse_examples_def
  clean_domain_of_def ascii_lower_def ascii_lower_char_def starts_with_def SUPPORTED_SITES_def

lemmas admit_defs = start_next_download.simps admit_head_def Let_def

subsection \<open>Dictionaries\<close>

lemma dict_set_keys:
  "dict_keys (dict_set k v d) = (if k \<in> set (dict_keys d) then dict_keys d else dict_keys d @ [k])"
  by (induction d) (force simp: dict_keys_def)+

lemma dict_set_fresh: "k \<notin> set (dict_keys d) \<Longrightarrow> dict_set k v d = d @ [(k, v)]"
  by (induction d) (auto simp: dict_keys_def)

lemma map_of_None_keys: "map_of d k = None \<longleftrightarrow> k \<notin> set (dict_keys d)"
  by (simp add: dict_keys_def map_of_eq_None_iff)

lemma dict_del_keys: "dict_keys (dict_del k d) = filter (\<lambda>k'. k' \<noteq> k) (dict_keys d)"
  by (induction d) (auto simp: dict_keys_def dict_del_def)

lemma dict_del_absent: "k \<notin> set (dict_keys d) \<Longrightarrow> dict_del k d = d"
  by (induction d) (auto simp: dict_keys_def dict_del_def)

lemma dict_del_head:
  "distinct (dict_keys ((k, v) # d)) \<Longrightarrow> dict_del k ((k, v) # d) = d"
  by (simp add: dict_del_def dict_keys_def filter_id_conv) force

lemma length_dict_del:
  "distinct (dict_keys d) \<Longrightarrow> k \<in> set (dict_keys d) \<Longrightarrow> Suc (length (dict_del k d)) = length d"
proof (induction d)
  case Nil
  then show ?case by (simp add: dict_keys_def)
next
  case (Cons kv d)
  show ?case
  proof (cases "fst kv = k")
    case True
    with Cons.prems have "k \<notin> set (dict_keys d)" by (auto simp: dict_keys_def)
    then have "dict_del k d = d" by (rule dict_del_absent)
    with True show ?thesis by (simp add: dict_del_def)
  next
    case False
    with Cons show ?thesis by (auto simp: dict_del_def dict_keys_def)
  qed
qed

subsection \<open>Admission\<close>

lemma start_next_download_full:
  "max_thread_count m \<le> int (length (active_downloads m)) \<Longrightarrow> start_next_download m = m"
  by (subst start_next_download.simps) simp

lemma start_next_download_step:
  "int (length (active_downloads m)) < max_thread_count m \<Longrightarrow> download_queue m \<noteq> [] \<Longrightarrow>
   start_next_download m = start_next_download (admit_head m)"
  by (subst start_next_download.simps) simp

lemma start_next_download_stop:
  "\<not> (int (length (active_downloads m)) < max_thread_count m \<and> download_queue m \<noteq> []) \<Longrightarrow>
   start_next_download m = m"
  by (subst start_next_download.simps) auto

text \<open>Admission only ever emits the size of the backlog.\<close>

lemma start_next_download_emitted:
  "\<exists>ns. emitted (start_next_download m) = emitted m @ map queue_updated ns"
proof (induction m rule: start_next_download.induct)
  case (1 m)
  show ?case
  proof (cases "int (length (active_downloads m)) < max_thread_count m \<and> download_queue m \<noteq> []")
    case True
    then have eq: "start_next_download m = start_next_download (admit_head m)"
      by (simp add: start_next_download_step)
    from 1 True obtain ns where
      "emitted (start_next_download (admit_head m)) = emitted (admit_head m) @ map queue_updated ns"
      by blast
    then have "emitted (start_next_download m) =
        emitted m @ map queue_updated (length (tl (download_queue m)) # ns)"
      by (simp add: eq admit_head_def Let_def)
    then show ?thesis by blast
  next
    case False
    then have "start_next_download m = m" by (rule start_next_download_stop)
    then have "emitted (start_next_download m) = emitted m @ map queue_updated []" by simp
    then show ?thesis by blast
  qed
qed

text \<open>Admission moves jobs from the backlog to the pool, and loses or invents none.\<close>

lemma start_next_download_jobs:
  "mset (map url (download_queue (start_next_download m))) +
     mset (map (\<lambda>wk. url (download_item wk)) (pool_started (start_next_download m)))
   = mset (map url (download_queue m)) + mset (map (\<lambda>wk. url (download_item wk)) (pool_started m))"
proof (induction m rule: start_next_download.induct)
  case (1 m)
  show ?case
  proof (cases "int (length (active_downloads m)) < max_thread_count m \<and> download_queue m \<noteq> []")
    case True
    then have eq: "start_next_download m = start_next_download (admit_head m)"
      by (simp add: start_next_download_step)
    from True obtain it rest where q: "download_queue m = it # rest"
      by (cases "download_queue m") auto
    have "mset (map url (download_queue (admit_head m))) +
            mset (map (\<lambda>wk. url (download_item wk)) (pool_started (admit_head m)))
          = mset (map url (download_queue m)) + mset (map (\<lambda>wk. url (download_item wk)) (pool_started m))"
      by (simp add: admit_head_def Let_def q DownloadWorker_def)
    with 1 True show ?thesis by (simp add: eq)
  next
    case False
    then have "start_next_download m = m" by (rule start_next_download_stop)
    then show ?thesis by simp
  qed
qed

text \<open>The URLs that are waiting or active stay the same set.\<close>

lemma start_next_download_tracked:
  "url ` set (download_queue (start_next_download m)) \<union> set (dict_keys (active_downloads (start_next_download m)))
   = url ` set (download_queue m) \<union> set (dict_keys (active_downloads m))"
proof (induction m rule: start_next_download.induct)
  case (1 m)
  show ?case
  proof (cases "int (length (active_downloads m)) < max_thread_count m \<and> download_queue m \<noteq> []")
    case True
    then have eq: "start_next_download m = start_next_download (admit_head m)"
      by (simp add: start_next_download_step)
    from True obtain it rest where q: "download_queue m = it # rest"
      by (cases "download_queue m") auto
    have "url ` set (download_queue (admit_head m)) \<union> set (dict_keys (active_downloads (admit_head m)))
          = url ` set (download_queue m) \<union> set (dict_keys (active_downloads m))"
      by (auto simp: admit_head_def Let_def q dict_set_keys)
    with 1 True show ?thesis by (simp add: eq)
  next
    case False
    then have "start_next_download m = m" by (rule start_next_download_stop)
    then show ?thesis by simp
  qed
qed

lemma foldl_append_queue:
  "foldl (\<lambda>m' u. m'\<lparr>download_queue := download_queue m' @ [DownloadItem u opts]\<rparr>) m us
   = m\<lparr>download_queue := download_queue m @ map (\<lambda>u. DownloadItem u opts) us\<rparr>"
  by (induction us arbitrary: m) simp_all

lemma add_download_unfold:
  "add_download up m urls opts =
     (let m2 = start_next_download
                 (m\<lparr>download_queue := download_queue m @
                       map (\<lambda>u. DownloadItem u opts) (filter (validate_url up) urls)\<rparr>)
      in m2\<lparr>emitted := emitted m2 @ [queue_updated (length (download_queue m2))]\<rparr>)"
  by (simp add: add_download_def foldl_append_queue Let_def)

subsection \<open>The finished notification\<close>

text \<open>
  C1. When a worker ends and emits \<open>worker_finished\<close>, the scheduler should drop the job
  from the active dictionary and admit the next waiting job. The slot that receives the
  signal does nothing: after a worker for \<^verbatim>\<open>a\<close> has completed and all its signals have been
  delivered, the manager is what it was, with \<^verbatim>\<open>a\<close> still counted as active and \<^verbatim>\<open>b\<close> still
  waiting behind a limit of one.
\<close>

theorem finished_worker_stays_active:
  "status (download_item (rs_worker (run True (script [good]) (snd (running ''a''))))) = Completed \<and>
   last (rs_signals (run True (script [good]) (snd (running ''a'')))) = worker_finished ''a'' \<and>
   foldl deliver (mgr 1 [''a''] [] [''b'']) (rs_signals (run True (script [good]) (snd (running ''a''))))
     = mgr 1 [''a''] [] [''b''] \<and>
   dict_keys (active_downloads (mgr 1 [''a''] [] [''b''])) = [''a''] \<and>
   queued_urls (mgr 1 [''a''] [] [''b'']) = [''b'']"
  by (simp add: example_defs script_defs run_defs retry_loop.simps on_worker_finished_def)

subsection \<open>Submission\<close>

text \<open>
  A URL that is already waiting is queued a second time when it is submitted again, and a
  URL that is already active gets a second worker.
\<close>

theorem resubmit_tracked_url_counterexample:
  "queued_urls (add_download urlparse_examples (mgr 1 [''x''] [] [''https://youtu.be/a''])
      [''https://youtu.be/a''] opts0) = [''https://youtu.be/a'', ''https://youtu.be/a''] \<and>
   started_urls (add_download urlparse_examples (mgr 2 [''https://youtu.be/a''] [] [])
      [''https://youtu.be/a''] opts0) = [''https://youtu.be/a'', ''https://youtu.be/a'']"
  by (simp add: example_defs add_download_def validate_defs admit_defs)

text \<open>
  C2, as the code has it. Submission does not look at what is tracked: after
  \<open>add_download\<close>, the jobs that wait or were started are those from before together with
  one new job for each valid URL of the submission, counted with multiplicity.
\<close>

theorem add_download_counts_every_valid_url:
  "mset (queued_urls (add_download up m urls opts)) + mset (started_urls (add_download up m urls opts))
   = mset (queued_urls m) + mset (started_urls m) + mset (filter (validate_url up) urls)"
proof -
  let ?m1 = "m\<lparr>download_queue := download_queue m @
                 map (\<lambda>u. DownloadItem u opts) (filter (validate_url up) urls)\<rparr>"
  have "mset (queued_urls (add_download up m urls opts)) + mset (started_urls (add_download up m urls opts))
        = mset (map url (download_queue (start_next_download ?m1))) +
          mset (map (\<lambda>wk. url (download_item wk)) (pool_started (start_next_download ?m1)))"
    by (simp add: add_download_unfold Let_def queued_urls_def started_urls_def)
  also have "\<dots> = mset (map url (download_queue ?m1)) +
                   mset (map (\<lambda>wk. url (download_item wk)) (pool_started ?m1))"
    by (rule start_next_download_jobs)
  also have "\<dots> = mset (queued_urls m) + mset (started_urls m) + mset (filter (validate_url up) urls)"
    by (simp add: queued_urls_def started_urls_def DownloadItem_def comp_def)
  finally show ?thesis .
qed

text \<open>
  A batch with one malformed URL between two valid ones: the call emits three sizes of the
  backlog and no report of a rejection.
\<close>

theorem batch_rejection_report_counterexample:
  "\<not> validate_url urlparse_examples ''notaurl'' \<and>
   emitted (add_download urlparse_examples (mgr 5 [] [] [])
      [''https://youtu.be/a'', ''notaurl'', ''https://vimeo.com/1''] opts0)
     = [queue_updated 1, queue_updated 0, queue_updated 0] \<and>
   length (filter is_error_report (emitted (add_download urlparse_examples (mgr 5 [] [] [])
      [''https://youtu.be/a'', ''notaurl'', ''https://vimeo.com/1''] opts0))) = 0"
  by (simp add: example_defs add_download_def validate_defs admit_defs)

text \<open>
  C3, as the code has it. A submission reports nothing per URL: the only signals it emits
  are sizes of the backlog, so an invalid URL is dropped without a report; every valid URL
  of the batch is waiting or active afterwards, whatever else the batch contains.
\<close>

theorem add_download_drops_invalid_silently:
  "(\<exists>ns. emitted (add_download up m urls opts) = emitted m @ map queue_updated ns) \<and>
   (\<forall>u \<in> set urls. validate_url up u \<longrightarrow>
      u \<in> set (queued_urls (add_download up m urls opts)) \<union>
          set (dict_keys (active_downloads (add_download up m urls opts))))"
proof
  let ?m1 = "m\<lparr>download_queue := download_queue m @
                 map (\<lambda>u. DownloadItem u opts) (filter (validate_url up) urls)\<rparr>"
  obtain ns where ns: "emitted (start_next_download ?m1) = emitted ?m1 @ map queue_updated ns"
    using start_next_download_emitted by blast
  have "emitted (add_download up m urls opts)
        = emitted m @ map queue_updated (ns @ [length (download_queue (start_next_download ?m1))])"
    by (simp add: add_download_unfold Let_def ns)
  then show "\<exists>ns. emitted (add_download up m urls opts) = emitted m @ map queue_updated ns"
    by blast
  show "\<forall>u \<in> set urls. validate_url up u \<longrightarrow>
      u \<in> set (queued_urls (add_download up m urls opts)) \<union>
          set (dict_keys (active_downloads (add_download up m urls opts)))"
  proof (intro ballI impI)
    fix u assume u: "u \<in> set urls" "validate_url up u"
    then have "u \<in> url ` set (download_queue ?m1)"
      by (simp add: image_iff DownloadItem_def) force
    then have "u \<in> url ` set (download_queue (start_next_download ?m1)) \<union>
               set (dict_keys (active_downloads (start_next_download ?m1)))"
      by (simp add: start_next_download_tracked)
    then show "u \<in> set (queued_urls (add_download up m urls opts)) \<union>
          set (dict_keys (active_downloads (add_download up m urls opts)))"
      by (simp add: add_download_unfold Let_def queued_urls_def)
  qed
qed

theorem add_download_drops_invalid_silently_witness:
  "''https://vimeo.com/1'' \<in> set [''notaurl'', ''https://vimeo.com/1''] \<and>
   validate_url urlparse_examples ''https://vimeo.com/1'' \<and>
   ''https://vimeo.com/1'' \<in>
      set (queued_urls (add_download urlparse_examples (mgr 1 [''x''] [] [])
             [''notaurl'', ''https://vimeo.com/1''] opts0)) \<union>
      set (dict_keys (active_downloads (add_download urlparse_examples (mgr 1 [''x''] [] [])
             [''notaurl'', ''https://vimeo.com/1''] opts0)))"
proof -
  have v: "validate_url urlparse_examples ''https://vimeo.com/1''"
    by (simp add: validate_defs)
  have i: "''https://vimeo.com/1'' \<in> set [''notaurl'', ''https://vimeo.com/1'']" by simp
  from add_download_drops_invalid_silently
         [of urlparse_examples "mgr 1 [''x''] [] []" "[''notaurl'', ''https://vimeo.com/1'']" opts0]
  show ?thesis using v i by blast
qed

subsection \<open>Resuming at capacity\<close>

text \<open>
  With a limit of one, \<^verbatim>\<open>a\<close> active, \<^verbatim>\<open>b\<close> paused and \<^verbatim>\<open>c\<close> waiting, resuming \<^verbatim>\<open>b\<close> makes it
  active and pauses \<^verbatim>\<open>a\<close>; the backlog still holds only \<^verbatim>\<open>c\<close>.
\<close>

theorem resume_at_capacity_counterexample:
  "dict_keys (active_downloads (resume_download (mgr 1 [''a''] [''b''] [''c'']) ''b'')) = [''b''] \<and>
   dict_keys (paused_downloads (resume_download (mgr 1 [''a''] [''b''] [''c'']) ''b'')) = [''a''] \<and>
   queued_urls (resume_download (mgr 1 [''a''] [''b''] [''c'']) ''b'') = [''c'']"
  by (simp add: example_defs worker_defs resume_download_def pause_download_def admit_defs)

text \<open>
  C6, as the code has it. When a paused job is resumed while the active dictionary holds
  exactly as many jobs as the limit allows, the resumed job enters the active dictionary
  (at its end), the oldest active job is paused and moved to the paused dictionary in its
  place, and the backlog is unchanged: nothing is admitted and nothing is put back.
\<close>

theorem resume_at_capacity_pauses_oldest:
  assumes P: "map_of (paused_downloads m) u = Some wk"
    and D: "distinct (dict_keys (active_downloads m))"
    and F: "u \<notin> set (dict_keys (active_downloads m))"
    and L: "int (length (active_downloads m)) = max_thread_count m"
    and A: "active_downloads m = (k0, w0) # rest"
  shows "active_downloads (resume_download m u) = rest @ [(u, fst (resume wk))] \<and>
         paused_downloads (resume_download m u)
           = dict_set k0 (fst (pause w0)) (dict_del u (paused_downloads m)) \<and>
         download_queue (resume_download m u) = download_queue m \<and>
         pool_started (resume_download m u) = pool_started m"
proof -
  define m1 where "m1 = m\<lparr>emitted := emitted m @ [snd (resume wk)],
                      active_downloads := dict_set u (fst (resume wk)) (active_downloads m),
                      paused_downloads := dict_del u (paused_downloads m)\<rparr>"
  have "dict_set u (fst (resume wk)) (active_downloads m) = active_downloads m @ [(u, fst (resume wk))]"
    using F by (rule dict_set_fresh)
  then have act1: "active_downloads m1 = (k0, w0) # rest @ [(u, fst (resume wk))]"
    by (simp add: m1_def A)
  have mt1: "max_thread_count m1 = max_thread_count m"
    by (simp add: m1_def)
  have over: "int (length (active_downloads m1)) > max_thread_count m1"
    using L by (simp add: act1 mt1 A)
  have r1: "resume_download m u = pause_download m1 (hd (dict_keys (active_downloads m1)))"
    using P over by (simp add: resume_download_def m1_def Let_def split_beta)
  have hd1: "hd (dict_keys (active_downloads m1)) = k0"
    by (simp add: act1 dict_keys_def)
  define m2 where "m2 = m1\<lparr>emitted := emitted m1 @ [snd (pause w0)],
                      paused_downloads := dict_set k0 (fst (pause w0)) (paused_downloads m1),
                      active_downloads := dict_del k0 (active_downloads m1)\<rparr>"
  have r2: "pause_download m1 k0 = start_next_download m2"
    by (simp add: pause_download_def act1 m2_def Let_def split_beta)
  have dk: "distinct (dict_keys ((k0, w0) # rest @ [(u, fst (resume wk))]))"
    using D F A by (auto simp: dict_keys_def)
  have act2: "active_downloads m2 = rest @ [(u, fst (resume wk))]"
    using dict_del_head [OF dk] by (simp add: m2_def act1)
  have mt2: "max_thread_count m2 = max_thread_count m"
    by (simp add: m2_def m1_def)
  have full: "max_thread_count m2 \<le> int (length (active_downloads m2))"
    using L by (simp add: act2 mt2 A)
  have r3: "start_next_download m2 = m2"
    using full by (rule start_next_download_full)
  have r: "resume_download m u = m2"
    by (simp add: r1 hd1 r2 r3)
  have "paused_downloads m2 = dict_set k0 (fst (pause w0)) (dict_del u (paused_downloads m))"
    and "download_queue m2 = download_queue m" and "pool_started m2 = pool_started m"
    by (simp_all add: m2_def m1_def)
  with act2 show ?thesis
    by (simp add: r)
qed

theorem resume_at_capacity_pauses_oldest_witness:
  "map_of (paused_downloads (mgr 2 [''a'', ''b''] [''c''] [''d''])) ''c'' = Some (snd (held ''c'')) \<and>
   distinct (dict_keys (active_downloads (mgr 2 [''a'', ''b''] [''c''] [''d'']))) \<and>
   ''c'' \<notin> set (dict_keys (active_downloads (mgr 2 [''a'', ''b''] [''c''] [''d'']))) \<and>
   int (length (active_downloads (mgr 2 [''a'', ''b''] [''c''] [''d''])))
     = max_thread_count (mgr 2 [''a'', ''b''] [''c''] [''d'']) \<and>
   active_downloads (mgr 2 [''a'', ''b''] [''c''] [''d'']) = running ''a'' # [running ''b''] \<and>
   active_downloads (resume_download (mgr 2 [''a'', ''b''] [''c''] [''d'']) ''c'')
     = [running ''b''] @ [(''c'', fst (resume (snd (held ''c''))))] \<and>
   download_queue (resume_download (mgr 2 [''a'', ''b''] [''c''] [''d'']) ''c'') = [job ''d'']"
proof -
  have P: "map_of (paused_downloads (mgr 2 [''a'', ''b''] [''c''] [''d''])) ''c'' = Some (snd (held ''c''))"
    by (simp add: mgr_def held_def)
  have D: "distinct (dict_keys (active_downloads (mgr 2 [''a'', ''b''] [''c''] [''d''])))"
    by (simp add: mgr_def running_def dict_keys_def)
  have F: "''c'' \<notin> set (dict_keys (active_downloads (mgr 2 [''a'', ''b''] [''c''] [''d''])))"
    by (simp add: mgr_def running_def dict_keys_def)
  have L: "int (length (active_downloads (mgr 2 [''a'', ''b''] [''c''] [''d''])))
     = max_thread_count (mgr 2 [''a'', ''b''] [''c''] [''d''])"
    by (simp add: mgr_def)
  have A: "active_downloads (mgr 2 [''a'', ''b''] [''c''] [''d''])
           = (''a'', snd (running ''a'')) # [running ''b'']"
    by (simp add: mgr_def running_def)
  have Q: "download_queue (mgr 2 [''a'', ''b''] [''c''] [''d'']) = [job ''d'']"
    by (simp add: mgr_def)
  from resume_at_capacity_pauses_oldest [OF P D F L A] P D F L A Q
  show ?thesis by (simp add: running_def)
qed

subsection \<open>Changing the limit\<close>

text \<open>
  Two jobs active, five waiting, and the limit raised from 2 to 5: the two are still the
  only active jobs and the five still wait.
\<close>

theorem raise_limit_counterexample:
  "dict_keys (active_downloads (save_settings (mgr 2 [''a'', ''b''] [] [''c'', ''d'', ''e'', ''f'', ''g'']) 5))
     = [''a'', ''b''] \<and>
   queued_urls (save_settings (mgr 2 [''a'', ''b''] [] [''c'', ''d'', ''e'', ''f'', ''g'']) 5)
     = [''c'', ''d'', ''e'', ''f'', ''g''] \<and>
   max_thread_count (save_settings (mgr 2 [''a'', ''b''] [] [''c'', ''d'', ''e'', ''f'', ''g'']) 5) = 5"
  by (simp add: example_defs save_settings_def load_settings_def)

text \<open>
  C7, as the code has it. Saving a new limit changes the limit and nothing else: backlog,
  active and paused dictionaries, started workers and signals stay as they are, so raising
  the limit admits nothing by itself and lowering it preempts nothing; and once the limit
  is at or below the number of active jobs, an admission pass admits nothing.
\<close>

theorem save_settings_only_sets_limit:
  "download_queue (save_settings m n) = download_queue m \<and>
   active_downloads (save_settings m n) = active_downloads m \<and>
   paused_downloads (save_settings m n) = paused_downloads m \<and>
   pool_started (save_settings m n) = pool_started m \<and>
   emitted (save_settings m n) = emitted m \<and>
   max_thread_count (save_settings m n) = n \<and>
   (n \<le> int (length (active_downloads m)) \<longrightarrow>
      start_next_download (save_settings m n) = save_settings m n)"
  by (simp add: save_settings_def load_settings_def start_next_download_full)

theorem save_settings_only_sets_limit_witness:
  "2 \<le> int (length (active_downloads (mgr 5 [''a'', ''b'', ''c''] [] [''d'']))) \<and>
   dict_keys (active_downloads (save_settings (mgr 5 [''a'', ''b'', ''c''] [] [''d'']) 2))
     = [''a'', ''b'', ''c''] \<and>
   start_next_download (save_settings (mgr 5 [''a'', ''b'', ''c''] [] [''d'']) 2)
     = save_settings (mgr 5 [''a'', ''b'', ''c''] [] [''d'']) 2"
proof -
  have h: "2 \<le> int (length (active_downloads (mgr 5 [''a'', ''b'', ''c''] [] [''d''])))"
    by (simp add: example_defs)
  have k: "dict_keys (active_downloads (mgr 5 [''a'', ''b'', ''c''] [] [''d''])) = [''a'', ''b'', ''c'']"
    by (simp add: example_defs)
  from save_settings_only_sets_limit [of "mgr 5 [''a'', ''b'', ''c''] [] [''d'']" 2] h k
  show ?thesis by simp
qed

subsection \<open>Cancelling\<close>

text \<open>
  C10. Cancelling a job of the active dictionary deletes its entry and runs admission on
  the result; when the active dictionary was full (with distinct keys, and the head of the
  backlog not active yet), exactly the head of the backlog is admitted into the freed
  slot. Cancelling a job of the paused dictionary deletes its entry and admits nothing:
  the active dictionary and the started workers are unchanged and the backlog only loses
  entries of that URL, whatever the limit and however many jobs wait.
\<close>

theorem cancel_active_admits_cancel_paused_does_not:
  "(map_of (active_downloads m) u = Some wk \<longrightarrow>
      active_downloads (cancel_download m u)
        = active_downloads (start_next_download
            (m\<lparr>emitted := emitted m @ [download_cancelled (url (download_item wk))],
               active_downloads := dict_del u (active_downloads m)\<rparr>)) \<and>
      pool_started (cancel_download m u)
        = pool_started (start_next_download
            (m\<lparr>emitted := emitted m @ [download_cancelled (url (download_item wk))],
               active_downloads := dict_del u (active_downloads m)\<rparr>))) \<and>
   (map_of (active_downloads m) u = Some wk \<and> distinct (dict_keys (active_downloads m)) \<and>
    int (length (active_downloads m)) = max_thread_count m \<and> download_queue m = h # q \<and>
    url h \<notin> set (dict_keys (active_downloads m)) \<longrightarrow>
      active_downloads (cancel_download m u)
        = dict_del u (active_downloads m) @ [(url h, DownloadWorker h)] \<and>
      pool_started (cancel_download m u) = pool_started m @ [DownloadWorker h] \<and>
      download_queue (cancel_download m u) = filter (\<lambda>it. url it \<noteq> u) q \<and>
      paused_downloads (cancel_download m u) = paused_downloads m) \<and>
   (map_of (active_downloads m) u = None \<and> map_of (paused_downloads m) u = Some wk \<longrightarrow>
      active_downloads (cancel_download m u) = active_downloads m \<and>
      pool_started (cancel_download m u) = pool_started m \<and>
      download_queue (cancel_download m u) = filter (\<lambda>it. url it \<noteq> u) (download_queue m) \<and>
      paused_downloads (cancel_download m u) = dict_del u (paused_downloads m))"
proof (intro conjI impI)
  assume G: "map_of (active_downloads m) u = Some wk"
  then show "active_downloads (cancel_download m u)
        = active_downloads (start_next_download
            (m\<lparr>emitted := emitted m @ [download_cancelled (url (download_item wk))],
               active_downloads := dict_del u (active_downloads m)\<rparr>))"
    by (simp add: cancel_download_def Let_def cancel_def)
  from G show "pool_started (cancel_download m u)
        = pool_started (start_next_download
            (m\<lparr>emitted := emitted m @ [download_cancelled (url (download_item wk))],
               active_downloads := dict_del u (active_downloads m)\<rparr>))"
    by (simp add: cancel_download_def Let_def cancel_def)
next
  assume H: "map_of (active_downloads m) u = Some wk \<and> distinct (dict_keys (active_downloads m)) \<and>
    int (length (active_downloads m)) = max_thread_count m \<and> download_queue m = h # q \<and>
    url h \<notin> set (dict_keys (active_downloads m))"
  define m0 where "m0 = m\<lparr>emitted := emitted m @ [snd (cancel wk)],
                      active_downloads := dict_del u (active_downloads m)\<rparr>"
  from H have uin: "u \<in> set (dict_keys (active_downloads m))"
    by (metis map_of_None_keys option.distinct(1))
  with H have len: "Suc (length (dict_del u (active_downloads m))) = length (active_downloads m)"
    by (simp add: length_dict_del)
  have fresh: "url h \<notin> set (dict_keys (dict_del u (active_downloads m)))"
    using H by (simp add: dict_del_keys)
  have go: "start_next_download m0 = start_next_download (admit_head m0)"
    using H len by (intro start_next_download_step) (simp_all add: m0_def)
  have "dict_set (url h) (DownloadWorker h) (dict_del u (active_downloads m))
        = dict_del u (active_downloads m) @ [(url h, DownloadWorker h)]"
    using fresh by (rule dict_set_fresh)
  then have act: "active_downloads (admit_head m0)
             = dict_del u (active_downloads m) @ [(url h, DownloadWorker h)]"
    using H by (simp add: admit_head_def m0_def Let_def)
  have mt: "max_thread_count (admit_head m0) = max_thread_count m"
    by (simp add: admit_head_def m0_def Let_def)
  have full: "max_thread_count (admit_head m0) \<le> int (length (active_downloads (admit_head m0)))"
    using H len by (simp add: act mt)
  have stop: "start_next_download m0 = admit_head m0"
    using go start_next_download_full [OF full] by simp
  have c: "cancel_download m u =
      (admit_head m0)\<lparr>download_queue := filter (\<lambda>it. url it \<noteq> u) (download_queue (admit_head m0)),
         emitted := emitted (admit_head m0) @
           [queue_updated (length (filter (\<lambda>it. url it \<noteq> u) (download_queue (admit_head m0))))]\<rparr>"
    using H by (simp add: cancel_download_def Let_def m0_def [symmetric] stop)
  show "active_downloads (cancel_download m u)
        = dict_del u (active_downloads m) @ [(url h, DownloadWorker h)]"
    by (simp add: c act)
  show "pool_started (cancel_download m u) = pool_started m @ [DownloadWorker h]"
    using H by (simp add: c admit_head_def m0_def Let_def)
  show "download_queue (cancel_download m u) = filter (\<lambda>it. url it \<noteq> u) q"
    using H by (simp add: c admit_head_def m0_def Let_def)
  show "paused_downloads (cancel_download m u) = paused_downloads m"
    by (simp add: c admit_head_def m0_def Let_def)
next
  assume H: "map_of (active_downloads m) u = None \<and> map_of (paused_downloads m) u = Some wk"
  then show "active_downloads (cancel_download m u) = active_downloads m"
    by (simp add: cancel_download_def Let_def)
  from H show "pool_started (cancel_download m u) = pool_started m"
    by (simp add: cancel_download_def Let_def)
  from H show "download_queue (cancel_download m u) = filter (\<lambda>it. url it \<noteq> u) (download_queue m)"
    by (simp add: cancel_download_def Let_def)
  from H show "paused_downloads (cancel_download m u) = dict_del u (paused_downloads m)"
    by (simp add: cancel_download_def Let_def)
qed

theorem cancel_active_admits_cancel_paused_does_not_witness:
  "(map_of (active_downloads (mgr 1 [''a''] [''p''] [''b''])) ''a'' = Some (snd (running ''a'')) \<and>
    distinct (dict_keys (active_downloads (mgr 1 [''a''] [''p''] [''b'']))) \<and>
    int (length (active_downloads (mgr 1 [''a''] [''p''] [''b''])))
      = max_thread_count (mgr 1 [''a''] [''p''] [''b'']) \<and>
    download_queue (mgr 1 [''a''] [''p''] [''b'']) = job ''b'' # [] \<and>
    url (job ''b'') \<notin> set (dict_keys (active_downloads (mgr 1 [''a''] [''p''] [''b'']))) \<and>
    active_downloads (cancel_download (mgr 1 [''a''] [''p''] [''b'']) ''a'') = [running ''b''] \<and>
    download_queue (cancel_download (mgr 1 [''a''] [''p''] [''b'']) ''a'') = []) \<and>
   (map_of (active_downloads (mgr 2 [''a''] [''p''] [''b''])) ''p'' = None \<and>
    map_of (paused_downloads (mgr 2 [''a''] [''p''] [''b''])) ''p'' = Some (snd (held ''p'')) \<and>
    active_downloads (cancel_download (mgr 2 [''a''] [''p''] [''b'']) ''p'') = [running ''a''] \<and>
    download_queue (cancel_download (mgr 2 [''a''] [''p''] [''b'']) ''p'') = [job ''b''] \<and>
    paused_downloads (cancel_download (mgr 2 [''a''] [''p''] [''b'']) ''p'') = [])"
proof -
  have h1: "map_of (active_downloads (mgr 1 [''a''] [''p''] [''b''])) ''a'' = Some (snd (running ''a'')) \<and>
    distinct (dict_keys (active_downloads (mgr 1 [''a''] [''p''] [''b'']))) \<and>
    int (length (active_downloads (mgr 1 [''a''] [''p''] [''b''])))
      = max_thread_count (mgr 1 [''a''] [''p''] [''b'']) \<and>
    download_queue (mgr 1 [''a''] [''p''] [''b'']) = job ''b'' # [] \<and>
    url (job ''b'') \<notin> set (dict_keys (active_downloads (mgr 1 [''a''] [''p''] [''b''])))"
    by (simp add: mgr_def running_def dict_keys_def job_def DownloadItem_def)
  have h2: "map_of (active_downloads (mgr 2 [''a''] [''p''] [''b''])) ''p'' = None \<and>
    map_of (paused_downloads (mgr 2 [''a''] [''p''] [''b''])) ''p'' = Some (snd (held ''p''))"
    by (simp add: mgr_def running_def held_def)
  have e1: "dict_del ''a'' (active_downloads (mgr 1 [''a''] [''p''] [''b''])) @
              [(url (job ''b''), DownloadWorker (job ''b''))] = [running ''b'']"
    by (simp add: mgr_def running_def dict_del_def job_def DownloadItem_def)
  have e2: "active_downloads (mgr 2 [''a''] [''p''] [''b'']) = [running ''a''] \<and>
            filter (\<lambda>it. url it \<noteq> ''p'') (download_queue (mgr 2 [''a''] [''p''] [''b''])) = [job ''b''] \<and>
            dict_del ''p'' (paused_downloads (mgr 2 [''a''] [''p''] [''b''])) = []"
    by (simp add: mgr_def running_def held_def dict_del_def job_def DownloadItem_def)
  note T1 = cancel_active_admits_cancel_paused_does_not
         [of "mgr 1 [''a''] [''p''] [''b'']" "''a''" "snd (running ''a'')" "job ''b''" "[]"]
  note T2 = cancel_active_admits_cancel_paused_does_not
         [of "mgr 2 [''a''] [''p''] [''b'']" "''p''" "snd (held ''p'')" "job ''b''" "[]"]
  from T1 h1 have
    "active_downloads (cancel_download (mgr 1 [''a''] [''p''] [''b'']) ''a'')
       = dict_del ''a'' (active_downloads (mgr 1 [''a''] [''p''] [''b''])) @
           [(url (job ''b''), DownloadWorker (job ''b''))]"
    and c2: "download_queue (cancel_download (mgr 1 [''a''] [''p''] [''b'']) ''a'')
       = filter (\<lambda>it. url it \<noteq> ''a'') []"
    by blast+
  then have c1: "active_downloads (cancel_download (mgr 1 [''a''] [''p''] [''b'']) ''a'') = [running ''b'']"
    by (simp only: e1)
  from T2 h2 have
    "active_downloads (cancel_download (mgr 2 [''a''] [''p''] [''b'']) ''p'')
       = active_downloads (mgr 2 [''a''] [''p''] [''b''])"
    and "download_queue (cancel_download (mgr 2 [''a''] [''p''] [''b'']) ''p'')
       = filter (\<lambda>it. url it \<noteq> ''p'') (download_queue (mgr 2 [''a''] [''p''] [''b'']))"
    and "paused_downloads (cancel_download (mgr 2 [''a''] [''p''] [''b'']) ''p'')
       = dict_del ''p'' (paused_downloads (mgr 2 [''a''] [''p''] [''b'']))"
    by blast+
  with e2 have c3: "active_downloads (cancel_download (mgr 2 [''a''] [''p''] [''b'']) ''p'') = [running ''a''] \<and>
    download_queue (cancel_download (mgr 2 [''a''] [''p''] [''b'']) ''p'') = [job ''b''] \<and>
    paused_downloads (cancel_download (mgr 2 [''a''] [''p''] [''b'']) ''p'') = []"
    by simp
  from h1 h2 c1 c2 c3 show ?thesis by simp
qed

subsection \<open>The retry loop\<close>

lemma attempt_body_quiet:
  assumes "\<not> is_cancelled wk" and "quiet a"
  shows "\<exists>ex wk' sigs'.
           attempt_body a wk sigs = (ex, \<not> attempt_fails a, wk', sigs') \<and>
           ex \<noteq> Returned \<and>
           ((\<exists>e. ex = Raised e) \<longleftrightarrow> attempt_raises (options (download_item wk)) a) \<and>
           \<not> is_cancelled wk' \<and>
           options (download_item wk') = options (download_item wk) \<and>
           url (download_item wk') = url (download_item wk) \<and>
           status (download_item wk') =
             (if attempt_fails a then status (download_item wk) else Completed) \<and>
           filter is_error_report sigs' = filter is_error_report sigs"
  using assms
  by (auto simp: attempt_body_def quiet_def arrive_def attempt_fails_def attempt_raises_def Let_def
           split: option.splits)

lemma retry_loop_done:
  "\<not> (rs_attempt s < 3 \<and> \<not> rs_success s \<and> \<not> is_cancelled (rs_worker s)) \<Longrightarrow>
   retry_loop env s = (Loop_done, s)"
  by (subst retry_loop.simps) (auto simp: max_attempts_def)

lemma retry_loop_step:
  assumes "rs_attempt s < 3" and "\<not> rs_success s" and "\<not> is_cancelled (rs_worker s)"
    and "quiet (env (Suc (rs_attempt s)))"
    and "attempt_body (env (Suc (rs_attempt s))) (rs_worker s) (rs_signals s) = (ex0, ok, wk', sigs')"
  shows "retry_loop env s =
     (case ex0 of
        Raised e \<Rightarrow>
          if Suc (rs_attempt s) = 3
          then (Loop_raised e,
                s\<lparr>rs_worker := wk', rs_attempt := Suc (rs_attempt s), rs_success := ok,
                  rs_signals := sigs'\<rparr>)
          else retry_loop env
                 (s\<lparr>rs_worker := wk', rs_attempt := Suc (rs_attempt s), rs_success := ok,
                    rs_signals := sigs', rs_sleeps := rs_sleeps s @ [5 * Suc (rs_attempt s)]\<rparr>)
      | Returned \<Rightarrow>
          (Loop_returned,
           s\<lparr>rs_worker := wk', rs_attempt := Suc (rs_attempt s), rs_success := ok,
             rs_signals := sigs'\<rparr>)
      | Fell_through \<Rightarrow>
          retry_loop env
            (s\<lparr>rs_worker := wk', rs_attempt := Suc (rs_attempt s), rs_success := ok,
               rs_signals := sigs'\<rparr>))"
  using assms
  by (subst retry_loop.simps)
     (auto simp: max_attempts_def Let_def arrive_def quiet_def split: body_exit.splits)

lemma loop_post_last:
  assumes "after_attempt env s s1"
    and "rs_attempt s < 3"
    and "rs_success s1 \<or> rs_attempt s1 = 3"
    and "ex \<noteq> Loop_returned"
    and "(\<exists>e. ex = Loop_raised e) \<longleftrightarrow>
           rs_attempt s1 = 3 \<and> attempt_raises (options (download_item (rs_worker s))) (env 3)"
  shows "loop_post env s ex s1"
  using assms by (auto simp: after_attempt_def loop_post_def Let_def)

lemma loop_post_more:
  assumes a: "after_attempt env s s1"
    and f: "attempt_fails (env (Suc (rs_attempt s)))"
    and p: "loop_post env s1 ex s'"
  shows "loop_post env s ex s'"
proof -
  let ?n = "Suc (rs_attempt s)"
  let ?opts = "options (download_item (rs_worker s))"
  from a have n1: "rs_attempt s1 = ?n" and o1: "options (download_item (rs_worker s1)) = ?opts"
    and u1: "url (download_item (rs_worker s1)) = url (download_item (rs_worker s))"
    and st1: "status (download_item (rs_worker s1)) = status (download_item (rs_worker s))"
    and sg1: "filter is_error_report (rs_signals s1) = filter is_error_report (rs_signals s)"
    and sl1: "rs_sleeps s1 = rs_sleeps s @ (if ?n < 3 \<and> attempt_raises ?opts (env ?n) then [5 * ?n] else [])"
    using f by (simp_all add: after_attempt_def Let_def)
  note P = p [unfolded loop_post_def Let_def, unfolded n1 o1 u1 st1 sg1]
  from P have lt: "?n < rs_attempt s'" by blast
  have between: "\<forall>n. rs_attempt s < n \<and> n < rs_attempt s' \<longrightarrow> attempt_fails (env n)"
  proof (intro allI impI)
    fix n assume n: "rs_attempt s < n \<and> n < rs_attempt s'"
    show "attempt_fails (env n)"
    proof (cases "n = ?n")
      case True
      with f show ?thesis by simp
    next
      case False
      with n have "?n < n \<and> n < rs_attempt s'" by simp
      with P show ?thesis by blast
    qed
  qed
  have upt: "[?n..<Suc (rs_attempt s')] = ?n # [Suc ?n..<Suc (rs_attempt s')]"
    using lt by (simp add: upt_conv_Cons)
  from P have "rs_sleeps s' = rs_sleeps s1 @
        map (\<lambda>n. 5 * n)
          (filter (\<lambda>n. n < 3 \<and> attempt_raises ?opts (env n)) [Suc ?n..<Suc (rs_attempt s')])"
    by blast
  then have sleeps: "rs_sleeps s' = rs_sleeps s @
        map (\<lambda>n. 5 * n)
          (filter (\<lambda>n. n < 3 \<and> attempt_raises ?opts (env n)) [?n..<Suc (rs_attempt s')])"
    by (simp only: upt sl1) simp
  from lt have "rs_attempt s < rs_attempt s'" by simp
  with between sleeps P show ?thesis
    unfolding loop_post_def Let_def by blast
qed

lemma retry_loop_quiet:
  assumes q: "\<forall>n. quiet (env n)"
  shows "3 - rs_attempt s = k \<Longrightarrow> rs_attempt s < 3 \<Longrightarrow> \<not> rs_success s \<Longrightarrow>
         \<not> is_cancelled (rs_worker s) \<Longrightarrow>
         loop_post env s (fst (retry_loop env s)) (snd (retry_loop env s))"
proof (induction k arbitrary: s)
  case 0
  then show ?case by simp
next
  case (Suc k)
  let ?n = "Suc (rs_attempt s)"
  let ?opts = "options (download_item (rs_worker s))"
  have qn: "quiet (env ?n)" using q by blast
  from attempt_body_quiet [OF Suc.prems(4) qn, of "rs_signals s"]
  obtain ex0 wk' sigs' where
    body: "attempt_body (env ?n) (rs_worker s) (rs_signals s)
             = (ex0, \<not> attempt_fails (env ?n), wk', sigs')"
    and nr: "ex0 \<noteq> Returned"
    and rz: "(\<exists>e. ex0 = Raised e) \<longleftrightarrow> attempt_raises ?opts (env ?n)"
    and nc: "\<not> is_cancelled wk'"
    and op: "options (download_item wk') = ?opts"
    and ur: "url (download_item wk') = url (download_item (rs_worker s))"
    and st: "status (download_item wk') =
               (if attempt_fails (env ?n) then status (download_item (rs_worker s)) else Completed)"
    and sg: "filter is_error_report sigs' = filter is_error_report (rs_signals s)"
    by blast
  define s1 where "s1 = s\<lparr>rs_worker := wk', rs_attempt := ?n,
                          rs_success := \<not> attempt_fails (env ?n), rs_signals := sigs'\<rparr>"
  define s2 where "s2 = s\<lparr>rs_worker := wk', rs_attempt := ?n,
                          rs_success := \<not> attempt_fails (env ?n), rs_signals := sigs',
                          rs_sleeps := rs_sleeps s @ [5 * ?n]\<rparr>"
  have step: "retry_loop env s =
     (case ex0 of
        Raised e \<Rightarrow> if ?n = 3 then (Loop_raised e, s1) else retry_loop env s2
      | Returned \<Rightarrow> (Loop_returned, s1)
      | Fell_through \<Rightarrow> retry_loop env s1)"
    unfolding s1_def s2_def
    using Suc.prems(2) Suc.prems(3) Suc.prems(4) qn body
    by (rule retry_loop_step [where env = env and s = s])
  have tail: "loop_post env s (fst (retry_loop env t)) (snd (retry_loop env t))"
    if a: "after_attempt env s t" and nl: "\<not> attempt_raises ?opts (env ?n) \<or> ?n < 3" for t
  proof (cases "rs_success t \<or> rs_attempt t = 3")
    case True
    then have "\<not> (rs_attempt t < 3 \<and> \<not> rs_success t \<and> \<not> is_cancelled (rs_worker t))"
      by auto
    then have d: "retry_loop env t = (Loop_done, t)"
      by (rule retry_loop_done)
    from a have "rs_attempt t = ?n" by (simp add: after_attempt_def Let_def)
    with nl have r: "(\<exists>e. Loop_done = Loop_raised e) \<longleftrightarrow>
                   rs_attempt t = 3 \<and> attempt_raises ?opts (env 3)" by auto
    have "loop_post env s Loop_done t"
      using a Suc.prems(2) True _ r by (rule loop_post_last) simp
    with d show ?thesis by simp
  next
    case False
    from a have at: "rs_attempt t = ?n" and su: "rs_success t = (\<not> attempt_fails (env ?n))"
      and ct: "\<not> is_cancelled (rs_worker t)"
      by (simp_all add: after_attempt_def Let_def)
    from at False Suc.prems(1) have k: "3 - rs_attempt t = k" and l: "rs_attempt t < 3" by auto
    from False have ns: "\<not> rs_success t" by simp
    have p: "loop_post env t (fst (retry_loop env t)) (snd (retry_loop env t))"
      using k l ns ct by (rule Suc.IH)
    from False su have f: "attempt_fails (env ?n)" by simp
    show ?thesis using a f p by (rule loop_post_more)
  qed
  show ?case
  proof (cases ex0)
    case Fell_through
    with step have eq: "retry_loop env s = retry_loop env s1" by simp
    from Fell_through rz have nrz: "\<not> attempt_raises ?opts (env ?n)" by auto
    have a: "after_attempt env s s1"
      using nc op ur st sg nrz by (simp add: after_attempt_def Let_def s1_def)
    from nrz have "\<not> attempt_raises ?opts (env ?n) \<or> ?n < 3" by simp
    with a show ?thesis unfolding eq by (rule tail)
  next
    case Returned
    with nr show ?thesis by simp
  next
    case (Raised e)
    with rz have yrz: "attempt_raises ?opts (env ?n)" by auto
    show ?thesis
    proof (cases "?n = 3")
      case True
      with step Raised have eq: "retry_loop env s = (Loop_raised e, s1)" by simp
      have a: "after_attempt env s s1"
        using nc op ur st sg True by (simp add: after_attempt_def Let_def s1_def)
      have t3: "rs_success s1 \<or> rs_attempt s1 = 3" using True by (simp add: s1_def)
      have r: "(\<exists>e'. Loop_raised e = Loop_raised e') \<longleftrightarrow>
                 rs_attempt s1 = 3 \<and> attempt_raises ?opts (env 3)"
        using yrz True by (simp add: s1_def)
      have "loop_post env s (Loop_raised e) s1"
        using a Suc.prems(2) t3 _ r by (rule loop_post_last) simp
      with eq show ?thesis by simp
    next
      case False
      with step Raised have eq: "retry_loop env s = retry_loop env s2" by simp
      from False Suc.prems(2) have lt: "?n < 3" by simp
      have a: "after_attempt env s s2"
        using nc op ur st sg yrz lt by (simp add: after_attempt_def Let_def s2_def)
      from lt have "\<not> attempt_raises ?opts (env ?n) \<or> ?n < 3" by simp
      with a show ?thesis unfolding eq by (rule tail)
    qed
  qed
qed

lemma retry_loop_attempts:
  "rs_attempt s \<le> 3 \<Longrightarrow> rs_attempt (snd (retry_loop env s)) \<le> 3"
proof (induction "3 - rs_attempt s" arbitrary: s)
  case 0
  then have "retry_loop env s = (Loop_done, s)" by (intro retry_loop_done) simp
  with 0 show ?case by simp
next
  case (Suc k)
  show ?case
  proof (cases "rs_attempt s < 3 \<and> \<not> rs_success s \<and> \<not> is_cancelled (rs_worker s)")
    case False
    then have "retry_loop env s = (Loop_done, s)" by (rule retry_loop_done)
    with Suc.prems show ?thesis by simp
  next
    case True
    obtain ex0 ok wk' sigs' where
      body: "attempt_body (env (Suc (rs_attempt s))) (rs_worker s) (rs_signals s) = (ex0, ok, wk', sigs')"
      by (metis prod_cases4)
    have ih: "rs_attempt (snd (retry_loop env t)) \<le> 3" if "rs_attempt t = Suc (rs_attempt s)" for t
      using that Suc.hyps(2) True by (intro Suc.hyps(1)) auto
    show ?thesis
      using True body
      by (subst retry_loop.simps) (auto simp: max_attempts_def Let_def ih split: body_exit.splits)
  qed
qed

lemma run_handlers_frame:
  "rs_attempt (run_handlers (x, s)) = rs_attempt s \<and> rs_sleeps (run_handlers (x, s)) = rs_sleeps s"
  by (simp add: run_handlers_def Let_def split: option.splits)

lemma run_handlers_None:
  "status (download_item (rs_worker (run_handlers (None, s)))) = status (download_item (rs_worker s)) \<and>
   filter is_error_report (rs_signals (run_handlers (None, s))) = filter is_error_report (rs_signals s)"
  by (simp add: run_handlers_def Let_def)

lemma run_handlers_Some:
  "\<not> is_cancelled (rs_worker s) \<Longrightarrow>
   status (download_item (rs_worker (run_handlers (Some e, s)))) = Error \<and>
   length (filter is_error_report (rs_signals (run_handlers (Some e, s))))
     = Suc (length (filter is_error_report (rs_signals s)))"
  by (simp add: run_handlers_def Let_def)

lemma run_attempts: "rs_attempt (run ffmpeg_found env wk) \<le> 3"
proof -
  let ?s0 = "\<lparr>rs_worker = run_start ffmpeg_found wk, rs_attempt = 0, rs_success = False,
                rs_signals = [], rs_sleeps = []\<rparr>"
  have l: "rs_attempt (snd (retry_loop env ?s0)) \<le> 3"
    by (rule retry_loop_attempts) simp
  obtain x s where b: "run_body ffmpeg_found env wk = (x, s)" by (cases "run_body ffmpeg_found env wk")
  have "s = ?s0 \<or> s = snd (retry_loop env ?s0)"
    using b by (auto simp: run_body_def Let_def split: if_splits prod.splits loop_exit.splits)
  with l have "rs_attempt s \<le> 3" by auto
  then show ?thesis by (simp add: run_def b run_handlers_frame)
qed

lemma run_quiet:
  assumes nc: "\<not> is_cancelled wk" and q: "\<forall>n. quiet (env n)"
    and ff: "\<not> ffmpeg_missing ffmpeg_found wk"
  shows "\<exists>ex s'. loop_post env
            \<lparr>rs_worker = run_start ffmpeg_found wk, rs_attempt = 0, rs_success = False,
              rs_signals = [], rs_sleeps = []\<rparr> ex s' \<and>
          run ffmpeg_found env wk =
            run_handlers (if (\<exists>e. ex = Loop_raised e) \<or> \<not> rs_success s'
                          then Some (case ex of Loop_raised e \<Rightarrow> e | _ \<Rightarrow> RuntimeError) else None, s')"
proof -
  let ?s0 = "\<lparr>rs_worker = run_start ffmpeg_found wk, rs_attempt = 0, rs_success = False,
                rs_signals = [], rs_sleeps = []\<rparr>"
  have c0: "\<not> is_cancelled (rs_worker ?s0)" using nc by (simp add: run_start_def Let_def)
  have p: "loop_post env ?s0 (fst (retry_loop env ?s0)) (snd (retry_loop env ?s0))"
    using q _ _ _ c0 by (rule retry_loop_quiet [where k = 3]) simp_all
  obtain ex s' where rl: "retry_loop env ?s0 = (ex, s')" by (cases "retry_loop env ?s0")
  with p have P: "loop_post env ?s0 ex s'" by simp
  then have nr: "ex \<noteq> Loop_returned" and c: "\<not> is_cancelled (rs_worker s')"
    by (simp_all add: loop_post_def Let_def)
  have "run ffmpeg_found env wk =
            run_handlers (if (\<exists>e. ex = Loop_raised e) \<or> \<not> rs_success s'
                          then Some (case ex of Loop_raised e \<Rightarrow> e | _ \<Rightarrow> RuntimeError) else None, s')"
    using ff rl nr c by (cases ex) (simp_all add: run_def run_body_def Let_def)
  with P show ?thesis by blast
qed

lemma succeeds_not_fails:
  "attempt_succeeds opts a \<Longrightarrow> \<not> attempt_fails a \<and> \<not> attempt_raises opts a"
  by (auto simp: attempt_succeeds_def attempt_fails_def attempt_raises_def)

text \<open>
  Two attempts whose transfer raises and a third whose transfer raises while the job is
  being cancelled: all three attempts fail, and the job ends cancelled with no error
  reported, because the handler of \<^verbatim>\<open>run\<close> reports only under
  \<^verbatim>\<open>if not self._is_cancelled\<close>.
\<close>

theorem cancelled_failure_counterexample:
  "attempt_fails (script [broken, broken, broken_cancelled] 1) \<and>
   attempt_fails (script [broken, broken, broken_cancelled] 2) \<and>
   attempt_fails (script [broken, broken, broken_cancelled] 3) \<and>
   rs_attempt (run True (script [broken, broken, broken_cancelled]) (snd (running ''a''))) = 3 \<and>
   status (download_item (rs_worker (run True (script [broken, broken, broken_cancelled]) (snd (running ''a'')))))
     = Cancelled \<and>
   filter is_error_report (rs_signals (run True (script [broken, broken, broken_cancelled]) (snd (running ''a''))))
     = []"
  by (simp add: example_defs script_defs run_defs retry_loop.simps attempt_fails_def worker_defs)

text \<open>
  The sleep of the backoff stands in the handler of the attempt, under the comment that
  the worker waits progressively between attempts. An attempt that leaves an empty output
  raises nothing and does not reach it: after two such attempts and a good third, three
  attempts were made and no sleep.
\<close>

lemma empty_output_retries_without_sleep:
  "attempt_fails (script [empty_out, empty_out, good] 1) \<and>
   attempt_fails (script [empty_out, empty_out, good] 2) \<and>
   rs_attempt (run True (script [empty_out, empty_out, good]) (snd (running ''a''))) = 3 \<and>
   rs_sleeps (run True (script [empty_out, empty_out, good]) (snd (running ''a''))) = []"
  by (simp add: example_defs script_defs run_defs retry_loop.simps attempt_fails_def)

text \<open>
  C4, as the code has it. A run makes at most 3 attempts. When no cancellation reaches the
  worker and ffmpeg is not missing: if every attempt either succeeds or has its probe or
  transfer raise, the sleeps are 5 times the attempt number between consecutive attempts;
  a job whose first two attempts fail and whose third succeeds (the verification, if
  asked for, passing) makes three attempts and ends completed with no error reported; a
  job whose three attempts fail ends with status error and one error reported.
\<close>

theorem run_retries_with_backoff:
  "rs_attempt (run ffmpeg_found env wk) \<le> 3 \<and>
   (\<not> is_cancelled wk \<and> (\<forall>n. quiet (env n)) \<and> \<not> ffmpeg_missing ffmpeg_found wk \<longrightarrow>
      ((\<forall>n. attempt_plain (options (download_item wk)) (env n)) \<longrightarrow>
         rs_sleeps (run ffmpeg_found env wk) = linear_backoff (rs_attempt (run ffmpeg_found env wk))) \<and>
      (attempt_fails (env 1) \<and> attempt_fails (env 2) \<and>
       attempt_succeeds (options (download_item wk)) (env 3) \<longrightarrow>
         rs_attempt (run ffmpeg_found env wk) = 3 \<and>
         status (download_item (rs_worker (run ffmpeg_found env wk))) = Completed \<and>
         filter is_error_report (rs_signals (run ffmpeg_found env wk)) = []) \<and>
      (attempt_fails (env 1) \<and> attempt_fails (env 2) \<and> attempt_fails (env 3) \<longrightarrow>
         rs_attempt (run ffmpeg_found env wk) = 3 \<and>
         status (download_item (rs_worker (run ffmpeg_found env wk))) = Error \<and>
         length (filter is_error_report (rs_signals (run ffmpeg_found env wk))) = 1))"
proof (intro conjI impI)
  show "rs_attempt (run ffmpeg_found env wk) \<le> 3" by (rule run_attempts)
next
  assume H: "\<not> is_cancelled wk \<and> (\<forall>n. quiet (env n)) \<and> \<not> ffmpeg_missing ffmpeg_found wk"
  let ?opts = "options (download_item wk)"
  let ?s0 = "\<lparr>rs_worker = run_start ffmpeg_found wk, rs_attempt = 0, rs_success = False,
                rs_signals = [], rs_sleeps = []\<rparr>"
  have o0: "options (download_item (rs_worker ?s0)) = ?opts"
    by (simp add: run_start_def Let_def)
  from H obtain ex s' where P: "loop_post env ?s0 ex s'"
    and r: "run ffmpeg_found env wk =
            run_handlers (if (\<exists>e. ex = Loop_raised e) \<or> \<not> rs_success s'
                          then Some (case ex of Loop_raised e \<Rightarrow> e | _ \<Rightarrow> RuntimeError) else None, s')"
    using run_quiet [of wk env ffmpeg_found] by blast
  note Q = P [unfolded loop_post_def Let_def o0]
  from Q have a1: "0 < rs_attempt s'" "rs_attempt s' \<le> 3" by simp_all
  from Q have a2: "\<forall>n. 0 < n \<and> n < rs_attempt s' \<longrightarrow> attempt_fails (env n)" by simp
  from Q have a3: "rs_success s' = (\<not> attempt_fails (env (rs_attempt s')))" by blast
  from Q have a4: "rs_attempt s' < 3 \<longrightarrow> rs_success s'" by blast
  from Q have a6: "(\<exists>e. ex = Loop_raised e) \<longleftrightarrow> rs_attempt s' = 3 \<and> attempt_raises ?opts (env 3)"
    by blast
  from Q have a7: "\<not> is_cancelled (rs_worker s')" by blast
  from Q have a8: "status (download_item (rs_worker s')) = (if rs_success s' then Completed else Downloading)"
    by (simp add: run_start_def Let_def)
  from Q have a9: "filter is_error_report (rs_signals s') = []" by simp
  from Q have a10: "rs_sleeps s' = map (\<lambda>n. 5 * n)
          (filter (\<lambda>n. n < 3 \<and> attempt_raises ?opts (env n)) [1..<Suc (rs_attempt s')])"
    by simp
  have att: "rs_attempt (run ffmpeg_found env wk) = rs_attempt s'"
    and sl: "rs_sleeps (run ffmpeg_found env wk) = rs_sleeps s'"
    by (simp_all add: r run_handlers_frame)
  {
    assume PL: "\<forall>n. attempt_plain ?opts (env n)"
    have rf: "attempt_raises ?opts (env n) \<longleftrightarrow> attempt_fails (env n)" for n
      using PL [rule_format, of n] succeeds_not_fails [of ?opts "env n"]
      by (auto simp: attempt_plain_def attempt_raises_def attempt_fails_def)
    have early: "\<forall>n \<in> set [1..<rs_attempt s']. n < 3 \<and> attempt_raises ?opts (env n)"
      using a1 a2 rf by auto
    have last: "\<not> (rs_attempt s' < 3 \<and> attempt_raises ?opts (env (rs_attempt s')))"
      using a3 a4 rf by auto
    have split: "[1..<Suc (rs_attempt s')] = [1..<rs_attempt s'] @ [rs_attempt s']"
      using a1 by simp
    have "filter (\<lambda>n. n < 3 \<and> attempt_raises ?opts (env n)) [1..<rs_attempt s'] = [1..<rs_attempt s']"
      using early by (simp only: filter_True)
    then have "filter (\<lambda>n. n < 3 \<and> attempt_raises ?opts (env n)) [1..<Suc (rs_attempt s')]
               = [1..<rs_attempt s']"
      using last by (simp only: split filter_append) simp
    with a10 have "rs_sleeps s' = linear_backoff (rs_attempt s')"
      by (simp only: linear_backoff_def)
    then show "rs_sleeps (run ffmpeg_found env wk) = linear_backoff (rs_attempt (run ffmpeg_found env wk))"
      by (simp only: att sl)
  }
  have three: "rs_attempt s' = 3" if f: "attempt_fails (env 1)" "attempt_fails (env 2)"
  proof (rule ccontr)
    assume "rs_attempt s' \<noteq> 3"
    with a1 have c: "rs_attempt s' = 1 \<or> rs_attempt s' = 2" by arith
    with a4 a3 have "\<not> attempt_fails (env (rs_attempt s'))" by auto
    with c f show False by auto
  qed
  {
    assume S: "attempt_fails (env 1) \<and> attempt_fails (env 2) \<and> attempt_succeeds ?opts (env 3)"
    then have t: "rs_attempt s' = 3" by (intro three) simp_all
    from S succeeds_not_fails have n3: "\<not> attempt_fails (env 3)" "\<not> attempt_raises ?opts (env 3)"
      by blast+
    with a3 a6 t have ok: "rs_success s'" "\<not> (\<exists>e. ex = Loop_raised e)" by simp_all
    then have r': "run ffmpeg_found env wk = run_handlers (None, s')" by (simp add: r)
    show "rs_attempt (run ffmpeg_found env wk) = 3" by (simp add: att t)
    show "status (download_item (rs_worker (run ffmpeg_found env wk))) = Completed"
      by (simp add: r' run_handlers_None a8 ok)
    show "filter is_error_report (rs_signals (run ffmpeg_found env wk)) = []"
      by (simp add: r' run_handlers_None a9)
  }
  {
    assume S: "attempt_fails (env 1) \<and> attempt_fails (env 2) \<and> attempt_fails (env 3)"
    then have t: "rs_attempt s' = 3" by (intro three) simp_all
    with a3 S have "\<not> rs_success s'" by simp
    then obtain e where r': "run ffmpeg_found env wk = run_handlers (Some e, s')" by (simp add: r)
    show "rs_attempt (run ffmpeg_found env wk) = 3" by (simp add: att t)
    show "status (download_item (rs_worker (run ffmpeg_found env wk))) = Error"
      using run_handlers_Some [OF a7, of e] by (simp add: r')
    show "length (filter is_error_report (rs_signals (run ffmpeg_found env wk))) = 1"
      using run_handlers_Some [OF a7, of e] by (simp add: r' a9)
  }
qed

theorem run_retries_with_backoff_witness:
  "\<not> is_cancelled (snd (running ''a'')) \<and> (\<forall>n. quiet (script [broken, broken, good] n)) \<and>
   \<not> ffmpeg_missing False (snd (running ''a'')) \<and>
   (\<forall>n. attempt_plain (options (download_item (snd (running ''a'')))) (script [broken, broken, good] n)) \<and>
   attempt_fails (script [broken, broken, good] 1) \<and>
   attempt_fails (script [broken, broken, good] 2) \<and>
   attempt_succeeds (options (download_item (snd (running ''a'')))) (script [broken, broken, good] 3) \<and>
   rs_attempt (run False (script [broken, broken, good]) (snd (running ''a''))) = 3 \<and>
   rs_sleeps (run False (script [broken, broken, good]) (snd (running ''a''))) = [5, 10] \<and>
   status (download_item (rs_worker (run False (script [broken, broken, good]) (snd (running ''a'')))))
     = Completed \<and>
   (\<forall>n. quiet (script [broken, broken, empty_out] n)) \<and>
   attempt_fails (script [broken, broken, empty_out] 1) \<and>
   attempt_fails (script [broken, broken, empty_out] 2) \<and>
   attempt_fails (script [broken, broken, empty_out] 3) \<and>
   status (download_item (rs_worker (run False (script [broken, broken, empty_out]) (snd (running ''a'')))))
     = Error"
proof -
  let ?o = "options (download_item (snd (running ''a'')))"
  have q: "quiet (script xs n)" if "\<forall>a \<in> set xs. quiet a" for xs n
    using that by (induction xs arbitrary: n) (auto simp: quiet_def good_def)
  have pl: "attempt_plain ?o (script xs n)" if "\<forall>a \<in> set xs. attempt_plain ?o a" for xs n
    using that
    by (induction xs arbitrary: n)
       (auto simp: attempt_plain_def attempt_succeeds_def good_def example_defs)
  have q1: "\<forall>n. quiet (script [broken, broken, good] n)"
    by (intro allI q) (simp add: quiet_def script_defs)
  have q2: "\<forall>n. quiet (script [broken, broken, empty_out] n)"
    by (intro allI q) (simp add: quiet_def script_defs)
  have p1: "\<forall>n. attempt_plain ?o (script [broken, broken, good] n)"
    by (intro allI pl) (simp add: attempt_plain_def attempt_succeeds_def script_defs example_defs)
  have h: "\<not> is_cancelled (snd (running ''a'')) \<and> \<not> ffmpeg_missing False (snd (running ''a''))"
    by (simp add: example_defs ffmpeg_missing_def needs_ffmpeg_def)
  have f1: "attempt_fails (script [broken, broken, good] 1) \<and>
            attempt_fails (script [broken, broken, good] 2) \<and>
            attempt_succeeds ?o (script [broken, broken, good] 3)"
    by (simp add: attempt_fails_def attempt_succeeds_def script_defs example_defs)
  have f2: "attempt_fails (script [broken, broken, empty_out] 1) \<and>
            attempt_fails (script [broken, broken, empty_out] 2) \<and>
            attempt_fails (script [broken, broken, empty_out] 3)"
    by (simp add: attempt_fails_def script_defs)
  let ?r1 = "run False (script [broken, broken, good]) (snd (running ''a''))"
  let ?r2 = "run False (script [broken, broken, empty_out]) (snd (running ''a''))"
  note T1 = run_retries_with_backoff [of False "script [broken, broken, good]" "snd (running ''a'')"]
  note T2 = run_retries_with_backoff [of False "script [broken, broken, empty_out]" "snd (running ''a'')"]
  from T1 h q1 f1 have c1: "rs_attempt ?r1 = 3" and c2: "status (download_item (rs_worker ?r1)) = Completed"
    by blast+
  from T1 h q1 p1 have "rs_sleeps ?r1 = linear_backoff (rs_attempt ?r1)"
    by blast
  then have c3: "rs_sleeps ?r1 = [5, 10]"
    by (simp add: c1 linear_backoff_def upt_rec)
  from T2 h q2 f2 have c4: "status (download_item (rs_worker ?r2)) = Error"
    by blast
  from h q1 q2 p1 f1 f2 c1 c2 c3 c4 show ?thesis by blast
qed

subsection \<open>Verification after the transfer\<close>

text \<open>
  C5. With \<^verbatim>\<open>verify\<close> set, a transfer that succeeds with a non-empty output and a
  verification that fails should end in status error. On the first attempt it does not:
  the exception of the verification is caught by the handler of the attempt, which sleeps
  5 seconds, and the loop then ends because \<^verbatim>\<open>success\<close> is already set; the job stays
  completed and no error is reported. Only on the third attempt is the exception raised
  again and the status set to error.
\<close>

theorem verify_failure_on_first_attempt_stays_completed:
  "status (download_item (rs_worker (run True (script [unverifiable]) (DownloadWorker (DownloadItem ''a'' opts_verify)))))
     = Completed \<and>
   filter is_error_report (rs_signals (run True (script [unverifiable]) (DownloadWorker (DownloadItem ''a'' opts_verify)))) = [] \<and>
   rs_attempt (run True (script [unverifiable]) (DownloadWorker (DownloadItem ''a'' opts_verify))) = 1 \<and>
   rs_sleeps (run True (script [unverifiable]) (DownloadWorker (DownloadItem ''a'' opts_verify))) = [5] \<and>
   verify_download opts_verify (info_filesize unverifiable) (vfy unverifiable) = Some FileNotFoundError \<and>
   status (download_item (rs_worker (run True (script [broken, broken, unverifiable]) (DownloadWorker (DownloadItem ''a'' opts_verify)))))
     = Error"
  by (simp add: example_defs script_defs run_defs retry_loop.simps)

subsection \<open>URL validation\<close>

text \<open>
  C8. A URL should be accepted exactly when its scheme is http or https and its host, in
  lower case and with the prefixes \<^verbatim>\<open>www.\<close> and \<^verbatim>\<open>m.\<close> stripped, matches a supported
  domain. The code deletes \<^verbatim>\<open>www.\<close> and \<^verbatim>\<open>m.\<close> wherever they stand: the host
  \<^verbatim>\<open>www.instagram.com\<close> of a site listed in \<^verbatim>\<open>SUPPORTED_SITES\<close> is cleaned to
  \<^verbatim>\<open>instagracom\<close>, which contains no supported domain, so the URL is rejected and a
  submission of it leaves the backlog empty and nothing active; and the host
  \<^verbatim>\<open>youtu.m.be\<close>, which has neither prefix and contains no supported domain, is cleaned to
  \<^verbatim>\<open>youtu.be\<close> and accepted.
\<close>

theorem instagram_url_rejected:
  "clean_domain_of urlparse_examples ''www.instagram.com'' = ''instagracom'' \<and>
   \<not> validate_url urlparse_examples ''https://www.instagram.com/p/abc/'' \<and>
   spec_validate_url urlparse_examples ''https://www.instagram.com/p/abc/'' \<and>
   queued_urls (add_download urlparse_examples (mgr 5 [] [] [])
      [''https://www.instagram.com/p/abc/''] opts0) = [] \<and>
   active_downloads (add_download urlparse_examples (mgr 5 [] [] [])
      [''https://www.instagram.com/p/abc/''] opts0) = [] \<and>
   clean_domain_of urlparse_examples ''youtu.m.be'' = ''youtu.be'' \<and>
   validate_url urlparse_examples ''https://youtu.m.be/x'' \<and>
   \<not> spec_validate_url urlparse_examples ''https://youtu.m.be/x''"
  by (simp add: validate_defs spec_validate_url_def strip_prefix_def example_defs
      add_download_def admit_defs)

subsection \<open>Progress ticks\<close>

lemma apply_ctl_frame:
  "last_bytes (apply_ctl c wk) = last_bytes wk \<and>
   progress (download_item (apply_ctl c wk)) = progress (download_item wk)"
  by (cases c) (simp_all add: worker_defs)

lemma wait_while_paused_frame:
  "wait_while_paused ctls wk = Some wk1 \<Longrightarrow>
   last_bytes wk1 = last_bytes wk \<and> progress (download_item wk1) = progress (download_item wk)"
proof (induction ctls arbitrary: wk)
  case Nil
  then show ?case by (simp split: if_splits)
next
  case (Cons c cs)
  show ?case
  proof (cases "is_paused wk \<and> \<not> is_cancelled wk")
    case True
    with Cons.prems have "wait_while_paused cs (apply_ctl c wk) = Some wk1" by simp
    then have "last_bytes wk1 = last_bytes (apply_ctl c wk) \<and>
               progress (download_item wk1) = progress (download_item (apply_ctl c wk))"
      by (rule Cons.IH)
    then show ?thesis by (simp add: apply_ctl_frame)
  next
    case False
    with Cons.prems show ?thesis by auto
  qed
qed

lemma wait_not_paused: "\<not> is_paused wk \<Longrightarrow> wait_while_paused ctls wk = Some wk"
  by (cases ctls) simp_all

lemma clamp_min_max: "min 100 (max 0 x) = clamp x 0 100"
  by (simp add: clamp_def min_def max_def)

lemma process_tick_ok:
  "\<exists>wk'. process_tick wk1 d dt = Inr (wk', [progress_updated (download_item wk')]) \<and>
     progress (download_item wk') =
       clamp (real_of_int (tick_current d) / real_of_int (max (tick_total d) 1) * 100) 0 100 \<and>
     speed (download_item wk') = real_of_int (tick_current d - last_bytes wk1) / max (1 / 10) dt"
proof -
  have t: "(if tick_total d \<le> 0 then 1 else tick_total d) = max (tick_total d) 1"
    by (simp add: max_def)
  have nz: "real_of_int (max (tick_total d) 1) \<noteq> 0" by simp
  have ez: "max (1 / 10) dt \<noteq> 0"
    by (simp add: max_def)
  show ?thesis
    by (simp add: process_tick_def Let_def t truediv_def nz ez clamp_min_max del: of_int_max)
qed

lemma clamp_range: "0 \<le> clamp x 0 100 \<and> clamp x 0 100 \<le> 100"
  by (simp add: clamp_def)

text \<open>
  C9. A call of the progress callback that returns never raises a division by zero. When
  it processes the tick (it posts \<open>progress_updated\<close>), the progress is the clamp to
  [0, 100] of downloaded bytes divided by the larger of the total and 1, times 100, and the
  speed is the byte difference divided by the elapsed time, which is at least a tenth of
  a second. When it does not process the tick, the progress is unchanged. A tick with
  status downloading that finds the worker neither cancelled nor paused is processed.
\<close>

theorem update_progress_tick:
  "(update_progress wk d ctls dt = Some res \<longrightarrow>
      (\<exists>wk' sigs. res = Inr (wk', sigs) \<and>
         (sigs \<noteq> [] \<longrightarrow>
            sigs = [progress_updated (download_item wk')] \<and>
            progress (download_item wk') =
              clamp (real_of_int (tick_current d) / real_of_int (max (tick_total d) 1) * 100) 0 100 \<and>
            0 \<le> progress (download_item wk') \<and> progress (download_item wk') \<le> 100 \<and>
            speed (download_item wk') = real_of_int (tick_current d - last_bytes wk) / max (1 / 10) dt \<and>
            1 / 10 \<le> max (1 / 10) dt) \<and>
         (sigs = [] \<longrightarrow> progress (download_item wk') = progress (download_item wk)))) \<and>
   (d_status d = ''downloading'' \<and> \<not> is_cancelled wk \<and> \<not> is_paused wk \<longrightarrow>
      (\<exists>wk'. update_progress wk d ctls dt = Some (Inr (wk', [progress_updated (download_item wk')]))))"
proof (intro conjI impI)
  assume R: "update_progress wk d ctls dt = Some res"
  show "\<exists>wk' sigs. res = Inr (wk', sigs) \<and>
         (sigs \<noteq> [] \<longrightarrow>
            sigs = [progress_updated (download_item wk')] \<and>
            progress (download_item wk') =
              clamp (real_of_int (tick_current d) / real_of_int (max (tick_total d) 1) * 100) 0 100 \<and>
            0 \<le> progress (download_item wk') \<and> progress (download_item wk') \<le> 100 \<and>
            speed (download_item wk') = real_of_int (tick_current d - last_bytes wk) / max (1 / 10) dt \<and>
            1 / 10 \<le> max (1 / 10) dt) \<and>
         (sigs = [] \<longrightarrow> progress (download_item wk') = progress (download_item wk))"
  proof (cases "d_status d = ''downloading'' \<and> \<not> is_cancelled wk")
    case False
    with R have "res = Inr (wk, [])" by (auto simp: update_progress_def)
    then show ?thesis by simp
  next
    case True
    with R obtain wk1 where w: "wait_while_paused ctls wk = Some wk1"
      by (cases "wait_while_paused ctls wk") (auto simp: update_progress_def)
    then have fr: "last_bytes wk1 = last_bytes wk"
      "progress (download_item wk1) = progress (download_item wk)"
      using wait_while_paused_frame by blast+
    show ?thesis
    proof (cases "is_cancelled wk1")
      case c: True
      with R True w have "res = Inr (wk1, [])" by (simp add: update_progress_def)
      with fr show ?thesis by simp
    next
      case c: False
      with R True w have r: "res = process_tick wk1 d dt" by (simp add: update_progress_def)
      from process_tick_ok [of wk1 d dt] obtain wk' where
        p: "process_tick wk1 d dt = Inr (wk', [progress_updated (download_item wk')])"
        and pr: "progress (download_item wk') =
          clamp (real_of_int (tick_current d) / real_of_int (max (tick_total d) 1) * 100) 0 100"
        and sp: "speed (download_item wk') = real_of_int (tick_current d - last_bytes wk1) / max (1 / 10) dt"
        by blast
      have rg: "0 \<le> progress (download_item wk') \<and> progress (download_item wk') \<le> 100"
        unfolding pr by (rule clamp_range)
      have "res = Inr (wk', [progress_updated (download_item wk')])" by (simp add: r p)
      with pr sp rg fr(1) show ?thesis by simp
    qed
  qed
next
  assume H: "d_status d = ''downloading'' \<and> \<not> is_cancelled wk \<and> \<not> is_paused wk"
  then have "update_progress wk d ctls dt = Some (process_tick wk d dt)"
    by (simp add: update_progress_def wait_not_paused)
  with process_tick_ok [of wk d dt]
  show "\<exists>wk'. update_progress wk d ctls dt = Some (Inr (wk', [progress_updated (download_item wk')]))"
    by auto
qed

theorem update_progress_tick_witness:
  "d_status tick_example = ''downloading'' \<and> \<not> is_cancelled (snd (running ''a'')) \<and>
   \<not> is_paused (snd (running ''a'')) \<and>
   (\<exists>wk'. update_progress (snd (running ''a'')) tick_example [] 0
            = Some (Inr (wk', [progress_updated (download_item wk')])) \<and>
          progress (download_item wk') = 25 \<and> speed (download_item wk') = 2500)"
proof -
  have h: "d_status tick_example = ''downloading'' \<and> \<not> is_cancelled (snd (running ''a'')) \<and>
   \<not> is_paused (snd (running ''a''))"
    by (simp add: tick_example_def example_defs)
  with update_progress_tick [of "snd (running ''a'')" tick_example "[]" 0]
  obtain wk' where u: "update_progress (snd (running ''a'')) tick_example [] 0
            = Some (Inr (wk', [progress_updated (download_item wk')]))"
    by blast
  with update_progress_tick [of "snd (running ''a'')" tick_example "[]" 0
                                "Inr (wk', [progress_updated (download_item wk')])"]
  have "progress (download_item wk') =
          clamp (real_of_int (tick_current tick_example) / real_of_int (max (tick_total tick_example) 1) * 100) 0 100 \<and>
        speed (download_item wk') = real_of_int (tick_current tick_example - last_bytes (snd (running ''a''))) / max (1 / 10) 0"
    by auto
  then have "progress (download_item wk') = 25 \<and> speed (download_item wk') = 2500"
    by (simp add: tick_example_def tick_current_def tick_total_def clamp_def example_defs)
  with h u show ?thesis by blast
qed

end
